theory Spec2Isabelle
  imports Complex_Main "HOL-Library.Multiset" "HOL-Library.AList"
begin

section \<open>Store records and JavaScript values\<close>

text \<open>
  The engine of \<^verbatim>\<open>src/utils/strategyEngine.ts\<close> works on arrays of \<^verbatim>\<open>StoreData\<close>
  objects. Arrays hold object references, and \<^verbatim>\<open>Array.prototype.includes\<close> compares
  references, so a store object is a reference \<open>ref\<close> and the objects live in a heap
  \<open>ref \<Rightarrow> StoreData\<close>. The engine never writes to a store object, hence the heap is a
  parameter that no function returns. Arrays are lists of references; the two functions
  that sort their argument in place return the new contents of that array as well.

  A JavaScript \<^verbatim>\<open>number\<close> is modelled as an exact \<open>real\<close>: rounding of doubles is not
  modelled. The one non-numeric value that the engine can produce from well-formed
  records, the quotient by a zero length, is kept by \<open>js_div\<close>.
\<close>

type_synonym ref = nat

record StoreData =
  naam :: string
  crmId :: string
  storeId :: string
  stad :: string
  straat :: string
  nummer :: string
  postcode :: string
  kanaal :: string
  storeType :: string
  fieldSalesRegio :: string
  klantgroep :: string
  prodSelect :: real
  strategie :: string
  storeSize :: real

type_synonym heap = "ref \<Rightarrow> StoreData"

record TargetConfig =
  total :: int

datatype jsnum = Finite real | NaN | PosInfinity | NegInfinity

definition js_div :: "real \<Rightarrow> real \<Rightarrow> jsnum" where
  "js_div a b =
     (if b = 0 then (if a = 0 then NaN else if 0 < a then PosInfinity else NegInfinity)
      else Finite (a / b))"

record PerformanceDistribution =
  high :: nat
  medium :: nat
  low :: nat

record Statistics =
  totalStores :: nat
  uniqueRegions :: nat
  uniqueRetailers :: nat
  revenuePerRegion :: "(string \<times> real) list"

record SelectionResult =
  selectedStores :: "ref list"
  totalRevenue :: real
  averageRevenue :: jsnum
  regionCoverage :: jsnum
  performanceDistribution :: PerformanceDistribution
  statistics :: Statistics

subsection \<open>Array primitives\<close>

text \<open>
  \<^verbatim>\<open>xs.slice(start, end)\<close> for integer arguments: a negative argument counts from the
  end, both are clamped to the length, and an end before the start gives the empty array.
\<close>

definition js_slice :: "'a list \<Rightarrow> int \<Rightarrow> int \<Rightarrow> 'a list" where
  "js_slice xs start fin =
     (let len = int (length xs);
          k = (if start < 0 then max (len + start) 0 else min start len);
          final = (if fin < 0 then max (len + fin) 0 else min fin len)
      in take (nat (final - k)) (drop (nat k) xs))"

text \<open>
  \<^verbatim>\<open>xs.sort(cmp)\<close> is stable, and for a consistent comparator its result is the one
  stable arrangement in which \<open>cmp a b \<le> 0\<close> holds for \<open>a\<close> before \<open>b\<close>. Inserting
  the elements from the right, each before the first element that does not have to
  precede it, computes that arrangement.
\<close>

primrec js_sort_insert :: "('a \<Rightarrow> 'a \<Rightarrow> real) \<Rightarrow> 'a \<Rightarrow> 'a list \<Rightarrow> 'a list" where
  "js_sort_insert cmp a [] = [a]"
| "js_sort_insert cmp a (b # bs) =
     (if cmp a b \<le> 0 then a # b # bs else b # js_sort_insert cmp a bs)"

definition js_sort :: "('a \<Rightarrow> 'a \<Rightarrow> real) \<Rightarrow> 'a list \<Rightarrow> 'a list" where
  "js_sort cmp xs = foldr (js_sort_insert cmp) xs []"

text \<open>\<^verbatim>\<open>[...new Set(xs)]\<close>: the distinct elements in order of first occurrence.\<close>

definition js_set_add :: "'a \<Rightarrow> 'a list \<Rightarrow> 'a list" where
  "js_set_add x acc = (if x \<in> set acc then acc else acc @ [x])"

definition js_set :: "'a list \<Rightarrow> 'a list" where
  "js_set xs = fold js_set_add xs []"

text \<open>
  \<^verbatim>\<open>xs.reduce(f)\<close> without an initial value, on a non-empty array whose first element is
  \<open>x\<close> and whose rest is \<open>rest\<close>. The two call sites guard the empty array.
\<close>

definition js_reduce1 :: "('a \<Rightarrow> 'a \<Rightarrow> 'a) \<Rightarrow> 'a \<Rightarrow> 'a list \<Rightarrow> 'a" where
  "js_reduce1 f x rest = foldl f x rest"

definition betterStore :: "heap \<Rightarrow> ref \<Rightarrow> ref \<Rightarrow> ref" where
  "betterStore h best current =
     (if prodSelect (h current) > prodSelect (h best) then current else best)"

subsection \<open>Objects used as dictionaries\<close>

text \<open>
  A \<^verbatim>\<open>Record<string, T>\<close> built from \<^verbatim>\<open>{}\<close> is an association list in insertion
  order: \<open>map_of\<close> reads a key, \<open>AList.update\<close> overwrites a key in its place or
  appends a new one. \<^verbatim>\<open>Object.entries\<close> lists the keys that are array indices first,
  in numeric order, and then the other keys in insertion order.

  The association list holds the own properties. Reading a key that is no own property
  gives \<^verbatim>\<open>undefined\<close>, except for the names of the members that every object inherits
  from \<^verbatim>\<open>Object.prototype\<close> (\<open>objectPrototypeMembers\<close>): they read as the inherited
  member. \<open>group_push\<close> and \<open>group_by_key\<close> are the grouping on keys that are none of
  these names; \<open>group_push_js\<close> and \<open>groupStoresByRegionJS\<close> below add the inherited
  members, for which the grouping throws.
\<close>

definition digits_value :: "string \<Rightarrow> int" where
  "digits_value s = fold (\<lambda>c n. 10 * n + (of_char c - 48)) s 0"

definition is_digit :: "char \<Rightarrow> bool" where
  "is_digit c = (48 \<le> (of_char c :: int) \<and> (of_char c :: int) \<le> 57)"

definition is_array_index :: "string \<Rightarrow> bool" where
  "is_array_index s =
     (list_all is_digit s
      \<and> (case s of [] \<Rightarrow> False | c # cs \<Rightarrow> (if c = CHR ''0'' then cs = [] else True))
      \<and> digits_value s < 4294967295)"

definition object_entries :: "(string \<times> 'v) list \<Rightarrow> (string \<times> 'v) list" where
  "object_entries obj =
     sort_key (\<lambda>p. digits_value (fst p)) (filter (\<lambda>p. is_array_index (fst p)) obj)
     @ filter (\<lambda>p. \<not> is_array_index (fst p)) obj"

definition group_push :: "('a \<Rightarrow> string) \<Rightarrow> 'a \<Rightarrow> (string \<times> 'a list) list \<Rightarrow> (string \<times> 'a list) list" where
  "group_push key store acc =
     (let acc1 = (case map_of acc (key store) of
                    None \<Rightarrow> AList.update (key store) [] acc
                  | Some _ \<Rightarrow> acc)
      in case map_of acc1 (key store) of
           None \<Rightarrow> acc1
         | Some members \<Rightarrow> AList.update (key store) (members @ [store]) acc1)"

definition group_by_key :: "('a \<Rightarrow> string) \<Rightarrow> 'a list \<Rightarrow> (string \<times> 'a list) list" where
  "group_by_key key stores = fold (group_push key) stores []"

definition groupStoresByRegion :: "heap \<Rightarrow> ref list \<Rightarrow> (string \<times> ref list) list" where
  "groupStoresByRegion h stores = group_by_key (\<lambda>s. fieldSalesRegio (h s)) stores"

section \<open>The strategies\<close>

text \<open>
  No strategy reads its \<^verbatim>\<open>config\<close> argument, so the model leaves it out.
  \<^verbatim>\<open>targetConfig.total\<close> is an integer, as the specification has it.
\<close>

subsection \<open>Revenue Focus\<close>

text \<open>
  \<^verbatim>\<open>stores.sort(...)\<close> sorts the argument array in place and returns it, so the second
  component is what the caller's array holds afterwards.
\<close>

definition revenueMaximizationSelection :: "heap \<Rightarrow> ref list \<Rightarrow> TargetConfig \<Rightarrow> ref list \<times> ref list" where
  "revenueMaximizationSelection h stores targetConfig =
     (let sorted = js_sort (\<lambda>a b. prodSelect (h b) - prodSelect (h a)) stores
      in (js_slice sorted 0 (total targetConfig), sorted))"

subsection \<open>Geographic Coverage\<close>

definition regionsOf :: "heap \<Rightarrow> ref list \<Rightarrow> string list" where
  "regionsOf h stores = js_set (map (\<lambda>store. fieldSalesRegio (h store)) stores)"

definition byRevenueDesc :: "heap \<Rightarrow> ref \<Rightarrow> ref \<Rightarrow> real" where
  "byRevenueDesc h a b = prodSelect (h b) - prodSelect (h a)"

definition byRevenueAsc :: "heap \<Rightarrow> ref \<Rightarrow> ref \<Rightarrow> real" where
  "byRevenueAsc h a b = prodSelect (h a) - prodSelect (h b)"

text \<open>The first loop: the best store of each region, while slots are left.\<close>

definition bestPerRegionStep :: "heap \<Rightarrow> (string \<times> ref list) list \<Rightarrow> int \<Rightarrow> string \<Rightarrow> ref list \<Rightarrow> ref list" where
  "bestPerRegionStep h storesByRegion target region selected =
     (case (case map_of storesByRegion region of None \<Rightarrow> [] | Some rs \<Rightarrow> rs) of
        [] \<Rightarrow> selected
      | x # rest \<Rightarrow>
          if int (length selected) < target
          then selected @ [js_reduce1 (betterStore h) x rest]
          else selected)"

text \<open>Each region's remaining stores are sorted in place, best first.\<close>

definition sortRegionStep :: "heap \<Rightarrow> string \<Rightarrow> (string \<times> ref list) list \<Rightarrow> (string \<times> ref list) list" where
  "sortRegionStep h region availableByRegion =
     (case map_of availableByRegion region of
        None \<Rightarrow> availableByRegion
      | Some rs \<Rightarrow> AList.update region (js_sort (byRevenueDesc h) rs) availableByRegion)"

text \<open>
  One turn of the round-robin loop: \<^verbatim>\<open>regionStores.shift()\<close> moves the head of the
  region's queue to the selection. With no region at all the index is \<^verbatim>\<open>NaN\<close> and
  nothing is found.
\<close>

definition roundRobinStep :: "string list \<Rightarrow> nat \<Rightarrow> ref list \<times> (string \<times> ref list) list \<Rightarrow> ref list \<times> (string \<times> ref list) list" where
  "roundRobinStep regions regionIndex st =
     (if regions = [] then st
      else (case map_of (snd st) (regions ! (regionIndex mod length regions)) of
              Some (x # rest) \<Rightarrow>
                (fst st @ [x],
                 AList.update (regions ! (regionIndex mod length regions)) rest (snd st))
            | _ \<Rightarrow> st))"

function roundRobin :: "string list \<Rightarrow> int \<Rightarrow> nat \<Rightarrow> ref list \<times> (string \<times> ref list) list \<Rightarrow> ref list" where
  "roundRobin regions target regionIndex st =
     (if int (length (fst st)) < target
      then (if Suc regionIndex > length regions * 10
            then fst (roundRobinStep regions regionIndex st)
            else roundRobin regions target (Suc regionIndex) (roundRobinStep regions regionIndex st))
      else fst st)"
  by pat_completeness auto
termination
  by (relation "measure (\<lambda>(regions, target, regionIndex, st). Suc (length regions * 10) - regionIndex)") auto

declare roundRobin.simps [simp del]

definition geographicDistributionSelection :: "heap \<Rightarrow> ref list \<Rightarrow> TargetConfig \<Rightarrow> ref list" where
  "geographicDistributionSelection h stores targetConfig =
     (let target = total targetConfig;
          regions = regionsOf h stores;
          storesByRegion = groupStoresByRegion h stores;
          selectedStores = fold (bestPerRegionStep h storesByRegion target) regions [];
          remainingSlots = target - int (length selectedStores);
          filled =
            (if remainingSlots > 0
             then (let availableStores = filter (\<lambda>store. store \<notin> set selectedStores) stores;
                       availableByRegion = groupStoresByRegion h availableStores;
                       sortedByRegion = fold (sortRegionStep h) regions availableByRegion
                   in roundRobin regions target 0 (selectedStores, sortedByRegion))
             else selectedStores)
      in js_slice filled 0 target)"

subsection \<open>The grouping on every region name\<close>

text \<open>
  The members of \<^verbatim>\<open>Object.prototype\<close>. Each of them is a function, or for
  \<^verbatim>\<open>__proto__\<close> the prototype object itself: a truthy value that has no \<^verbatim>\<open>push\<close>.
\<close>

datatype js_error = TypeError

definition objectPrototypeMembers :: "string list" where
  "objectPrototypeMembers =
     [''constructor'', ''__proto__'', ''__defineGetter__'', ''__defineSetter__'',
      ''__lookupGetter__'', ''__lookupSetter__'', ''hasOwnProperty'', ''isPrototypeOf'',
      ''propertyIsEnumerable'', ''toLocaleString'', ''toString'', ''valueOf'']"

text \<open>
  One turn of the \<^verbatim>\<open>reduce\<close> of \<^verbatim>\<open>groupStoresByRegion\<close>. When the key is no own
  property and names an inherited member, \<^verbatim>\<open>!acc[key]\<close> is false, no array is stored,
  and \<^verbatim>\<open>acc[key].push(store)\<close> calls \<^verbatim>\<open>undefined\<close>: a \<^verbatim>\<open>TypeError\<close>. On every other
  key the turn is \<open>group_push\<close>.
\<close>

definition group_push_js :: "('a \<Rightarrow> string) \<Rightarrow> 'a \<Rightarrow> (string \<times> 'a list) list \<Rightarrow> js_error + (string \<times> 'a list) list" where
  "group_push_js key store acc =
     (if map_of acc (key store) = None \<and> key store \<in> set objectPrototypeMembers
      then Inl TypeError
      else Inr (group_push key store acc))"

text \<open>A loop whose body may throw: the first exception ends it.\<close>

primrec fold_js :: "('a \<Rightarrow> 'b \<Rightarrow> js_error + 'b) \<Rightarrow> 'a list \<Rightarrow> 'b \<Rightarrow> js_error + 'b" where
  "fold_js f [] acc = Inr acc"
| "fold_js f (x # xs) acc = (case f x acc of Inl e \<Rightarrow> Inl e | Inr acc1 \<Rightarrow> fold_js f xs acc1)"

definition groupStoresByRegionJS :: "heap \<Rightarrow> ref list \<Rightarrow> js_error + (string \<times> ref list) list" where
  "groupStoresByRegionJS h stores = fold_js (group_push_js (\<lambda>s. fieldSalesRegio (h s))) stores []"

text \<open>
  Geographic Coverage with this grouping: the body of \<open>geographicDistributionSelection\<close>,
  where each of the two calls of \<^verbatim>\<open>groupStoresByRegion\<close> may throw.
\<close>

definition geographicDistributionSelectionJS :: "heap \<Rightarrow> ref list \<Rightarrow> TargetConfig \<Rightarrow> js_error + ref list" where
  "geographicDistributionSelectionJS h stores targetConfig =
     (let target = total targetConfig;
          regions = regionsOf h stores
      in case groupStoresByRegionJS h stores of
           Inl e \<Rightarrow> Inl e
         | Inr storesByRegion \<Rightarrow>
             (let selectedStores = fold (bestPerRegionStep h storesByRegion target) regions [];
                  remainingSlots = target - int (length selectedStores)
              in if remainingSlots > 0
                 then (let availableStores = filter (\<lambda>store. store \<notin> set selectedStores) stores
                       in case groupStoresByRegionJS h availableStores of
                            Inl e \<Rightarrow> Inl e
                          | Inr availableByRegion \<Rightarrow>
                              Inr (js_slice
                                     (roundRobin regions target 0
                                        (selectedStores,
                                         fold (sortRegionStep h) regions availableByRegion))
                                     0 target))
                 else Inr (js_slice selectedStores 0 target)))"

subsection \<open>Growth Opportunities\<close>

definition regionPassStep :: "heap \<Rightarrow> int \<Rightarrow> ref \<Rightarrow> ref list \<times> string list \<Rightarrow> ref list \<times> string list" where
  "regionPassStep h target store st =
     (if fieldSalesRegio (h store) \<notin> set (snd st) \<and> int (length (fst st)) < target
      then (fst st @ [store], js_set_add (fieldSalesRegio (h store)) (snd st))
      else st)"

definition fillPassStep :: "int \<Rightarrow> ref \<Rightarrow> ref list \<Rightarrow> ref list" where
  "fillPassStep target store selected =
     (if store \<notin> set selected \<and> int (length selected) < target
      then selected @ [store]
      else selected)"

text \<open>
  \<^verbatim>\<open>stores.sort(...)\<close> again sorts the argument in place; the second component is the
  argument array afterwards.
\<close>

definition growthPotentialSelection :: "heap \<Rightarrow> ref list \<Rightarrow> TargetConfig \<Rightarrow> ref list \<times> ref list" where
  "growthPotentialSelection h stores targetConfig =
     (let target = total targetConfig;
          sortedStores = js_sort (byRevenueAsc h) stores;
          totalStores = length sortedStores;
          middle = js_slice sortedStores \<lfloor>real totalStores * 0.2\<rfloor> \<lfloor>real totalStores * 0.7\<rfloor>;
          growthCandidates =
            (if int (length middle) < target
             then middle @ js_slice sortedStores 0 \<lfloor>real totalStores * 0.2\<rfloor>
             else middle);
          firstPass = fst (fold (regionPassStep h target) growthCandidates ([], []));
          selectedStores = fold (fillPassStep target) growthCandidates firstPass
      in (js_slice selectedStores 0 target, sortedStores))"

subsection \<open>Portfolio Balance\<close>

definition js_round :: "real \<Rightarrow> int" where
  "js_round x = \<lfloor>x + 1 / 2\<rfloor>"

definition underrepresentedStep :: "heap \<Rightarrow> ref list \<Rightarrow> int \<Rightarrow> string \<Rightarrow> ref list \<Rightarrow> ref list" where
  "underrepresentedStep h finalRemaining experimentalCount region experimentalStores =
     (if int (length experimentalStores) \<ge> experimentalCount then experimentalStores
      else (case filter (\<lambda>store. fieldSalesRegio (h store) = region) finalRemaining of
              [] \<Rightarrow> experimentalStores
            | x # rest \<Rightarrow> experimentalStores @ [js_reduce1 (betterStore h) x rest]))"

definition experimentalSelection :: "heap \<Rightarrow> ref list \<Rightarrow> ref list \<Rightarrow> ref list \<Rightarrow> int \<Rightarrow> ref list" where
  "experimentalSelection h stores selected finalRemaining experimentalCount =
     (let regions = regionsOf h stores;
          selectedRegions = regionsOf h selected;
          underrepresentedRegions = filter (\<lambda>region. region \<notin> set selectedRegions) regions;
          firstStores = fold (underrepresentedStep h finalRemaining experimentalCount)
                          underrepresentedRegions [];
          remaining = js_sort (byRevenueAsc h)
                        (filter (\<lambda>store. store \<notin> set firstStores) finalRemaining)
      in firstStores @ js_slice remaining 0 (experimentalCount - int (length firstStores)))"

definition portfolioBalanceSelection :: "heap \<Rightarrow> ref list \<Rightarrow> TargetConfig \<Rightarrow> ref list" where
  "portfolioBalanceSelection h stores targetConfig =
     (let target = total targetConfig;
          coreCount = js_round (real_of_int target * 0.7);
          growthCount = js_round (real_of_int target * 0.2);
          experimentalCount = target - coreCount - growthCount;
          coreStores = geographicDistributionSelection h stores (targetConfig\<lparr>total := coreCount\<rparr>);
          remainingStores = filter (\<lambda>store. store \<notin> set coreStores) stores;
          growthStores = fst (growthPotentialSelection h remainingStores (targetConfig\<lparr>total := growthCount\<rparr>));
          selectedStores = coreStores @ growthStores;
          finalRemaining = filter (\<lambda>store. store \<notin> set selectedStores) stores;
          withExperimental =
            (if length finalRemaining > 0 \<and> experimentalCount > 0
             then selectedStores @ experimentalSelection h stores selectedStores finalRemaining experimentalCount
             else selectedStores)
      in js_slice withExperimental 0 target)"

subsection \<open>Market Penetration\<close>

text \<open>
  A group made by \<open>group_by_key\<close> has at least one member, so the average below never
  divides by zero.
\<close>

record RegionDensity =
  rd_region :: string
  rd_storeCount :: nat
  rd_avgRevenue :: real
  rd_stores :: "ref list"

definition sumRevenue :: "heap \<Rightarrow> ref list \<Rightarrow> real" where
  "sumRevenue h rs = foldl (\<lambda>sum store. sum + prodSelect (h store)) 0 rs"

definition regionDensityOf :: "heap \<Rightarrow> string \<times> ref list \<Rightarrow> RegionDensity" where
  "regionDensityOf h entry =
     \<lparr>rd_region = fst entry,
      rd_storeCount = length (snd entry),
      rd_avgRevenue = sumRevenue h (snd entry) / real (length (snd entry)),
      rd_stores = snd entry\<rparr>"

definition byDensity :: "RegionDensity \<Rightarrow> RegionDensity \<Rightarrow> real" where
  "byDensity a b =
     (let densityDiff = int (rd_storeCount b) - int (rd_storeCount a)
      in if densityDiff \<noteq> 0 then real_of_int densityDiff else rd_avgRevenue b - rd_avgRevenue a)"

definition penetrationStep :: "heap \<Rightarrow> ref list \<Rightarrow> int \<Rightarrow> RegionDensity \<Rightarrow> ref list \<Rightarrow> ref list" where
  "penetrationStep h stores target d selected =
     (if int (length selected) \<ge> target then selected
      else (let remainingSlots = target - int (length selected);
                regionWeight = real (length (rd_stores d)) / real (length stores);
                storesToSelect = max 1 (min remainingSlots \<lceil>real_of_int target * regionWeight\<rceil>);
                topStores = js_slice (js_sort (byRevenueDesc h) (rd_stores d)) 0 storesToSelect
            in selected @ topStores))"

definition marketPenetrationSelection :: "heap \<Rightarrow> ref list \<Rightarrow> TargetConfig \<Rightarrow> ref list" where
  "marketPenetrationSelection h stores targetConfig =
     (let target = total targetConfig;
          storesByRegion = groupStoresByRegion h stores;
          regionDensity = js_sort byDensity (map (regionDensityOf h) (object_entries storesByRegion));
          selectedStores = fold (penetrationStep h stores target) regionDensity []
      in js_slice selectedStores 0 target)"

subsection \<open>Demographic Targeting\<close>

record SegmentPerformance =
  sp_segment :: string
  sp_storeCount :: nat
  sp_avgRevenue :: real
  sp_totalRevenue :: real
  sp_stores :: "ref list"

definition demographicKey :: "heap \<Rightarrow> ref \<Rightarrow> string" where
  "demographicKey h store = klantgroep (h store) @ ''-'' @ kanaal (h store)"

definition segmentPerformanceOf :: "heap \<Rightarrow> string \<times> ref list \<Rightarrow> SegmentPerformance" where
  "segmentPerformanceOf h entry =
     \<lparr>sp_segment = fst entry,
      sp_storeCount = length (snd entry),
      sp_avgRevenue = sumRevenue h (snd entry) / real (length (snd entry)),
      sp_totalRevenue = sumRevenue h (snd entry),
      sp_stores = js_sort (byRevenueDesc h) (snd entry)\<rparr>"

definition byAvgRevenue :: "SegmentPerformance \<Rightarrow> SegmentPerformance \<Rightarrow> real" where
  "byAvgRevenue a b = sp_avgRevenue b - sp_avgRevenue a"

definition segmentStep :: "int \<Rightarrow> SegmentPerformance \<Rightarrow> ref list \<Rightarrow> ref list" where
  "segmentStep target seg selected =
     (if int (length selected) \<ge> target then selected
      else (let remainingSlots = target - int (length selected);
                storesToSelect = min remainingSlots (max 1 \<lceil>real (length (sp_stores seg)) * 0.3\<rceil>)
            in selected @ js_slice (sp_stores seg) 0 storesToSelect))"

definition demographicTargetingSelection :: "heap \<Rightarrow> ref list \<Rightarrow> TargetConfig \<Rightarrow> ref list" where
  "demographicTargetingSelection h stores targetConfig =
     (let target = total targetConfig;
          storesByDemographic = group_by_key (demographicKey h) stores;
          segmentPerformance = js_sort byAvgRevenue
                                 (map (segmentPerformanceOf h) (object_entries storesByDemographic));
          selectedStores = fold (segmentStep target) segmentPerformance []
      in js_slice selectedStores 0 target)"

section \<open>The dispatcher and the result analytics\<close>

text \<open>
  \<^verbatim>\<open>xs[i]\<close> is \<^verbatim>\<open>undefined\<close> outside the array, and a comparison of a number with
  \<^verbatim>\<open>undefined\<close> is false.
\<close>

definition js_index :: "'a list \<Rightarrow> int \<Rightarrow> 'a option" where
  "js_index xs i = (if 0 \<le> i \<and> i < int (length xs) then Some (xs ! nat i) else None)"

definition js_ge :: "real \<Rightarrow> real option \<Rightarrow> bool" where
  "js_ge v t = (case t of None \<Rightarrow> False | Some w \<Rightarrow> v \<ge> w)"

definition js_lt :: "real \<Rightarrow> real option \<Rightarrow> bool" where
  "js_lt v t = (case t of None \<Rightarrow> False | Some w \<Rightarrow> v < w)"

definition revenuePerRegionStep :: "heap \<Rightarrow> ref \<Rightarrow> (string \<times> real) list \<Rightarrow> (string \<times> real) list" where
  "revenuePerRegionStep h store acc =
     AList.update (fieldSalesRegio (h store))
       ((case map_of acc (fieldSalesRegio (h store)) of None \<Rightarrow> 0 | Some v \<Rightarrow> v)
        + prodSelect (h store)) acc"

text \<open>\<^verbatim>\<open>naam.split(' ')[0]\<close>: the name up to its first space.\<close>

definition firstWord :: "string \<Rightarrow> string" where
  "firstWord s = takeWhile (\<lambda>c. c \<noteq> CHR '' '') s"

definition generateResult :: "heap \<Rightarrow> ref list \<Rightarrow> ref list \<Rightarrow> SelectionResult" where
  "generateResult h selected allStores =
     (let revenueSum = sumRevenue h selected;
          average = js_div revenueSum (real (length selected));
          regionSet = regionsOf h selected;
          totalRegions = regionsOf h allStores;
          coverage = js_div (real (length regionSet)) (real (length totalRegions));
          revenues = map (\<lambda>store. prodSelect (h store)) selected;
          sortedRevenues = js_sort (\<lambda>a b. b - a) revenues;
          highThreshold = js_index sortedRevenues \<lfloor>real (length sortedRevenues) * 0.33\<rfloor>;
          mediumThreshold = js_index sortedRevenues \<lfloor>real (length sortedRevenues) * 0.66\<rfloor>;
          distribution =
            \<lparr>high = length (filter (\<lambda>store. js_ge (prodSelect (h store)) highThreshold) selected),
             medium = length (filter (\<lambda>store. js_ge (prodSelect (h store)) mediumThreshold
                                           \<and> js_lt (prodSelect (h store)) highThreshold) selected),
             low = length (filter (\<lambda>store. js_lt (prodSelect (h store)) mediumThreshold) selected)\<rparr>;
          perRegion = fold (revenuePerRegionStep h) selected [];
          retailerSet = js_set (map (\<lambda>store. firstWord (naam (h store))) selected)
      in \<lparr>selectedStores = selected,
          totalRevenue = revenueSum,
          averageRevenue = average,
          regionCoverage = coverage,
          performanceDistribution = distribution,
          statistics =
            \<lparr>totalStores = length selected,
             uniqueRegions = length regionSet,
             uniqueRetailers = length retailerSet,
             revenuePerRegion = perRegion\<rparr>\<rparr>)"

definition createEmptyResult :: SelectionResult where
  "createEmptyResult =
     \<lparr>selectedStores = [],
      totalRevenue = 0,
      averageRevenue = Finite 0,
      regionCoverage = Finite 0,
      performanceDistribution = \<lparr>high = 0, medium = 0, low = 0\<rparr>,
      statistics =
        \<lparr>totalStores = 0, uniqueRegions = 0, uniqueRetailers = 0, revenuePerRegion = []\<rparr>\<rparr>"

text \<open>
  The \<^verbatim>\<open>switch\<close> of \<^verbatim>\<open>selectStores\<close>: the selection, and the contents of the
  working array after the call. An identifier that names no strategy takes the default
  branch.
\<close>

definition runStrategy :: "heap \<Rightarrow> string \<Rightarrow> ref list \<Rightarrow> TargetConfig \<Rightarrow> ref list \<times> ref list" where
  "runStrategy h strategy workingStores targetConfig =
     (if strategy = ''revenue-focus''
      then revenueMaximizationSelection h workingStores targetConfig
      else if strategy = ''geographic-coverage''
      then (geographicDistributionSelection h workingStores targetConfig, workingStores)
      else if strategy = ''growth-opportunities''
      then growthPotentialSelection h workingStores targetConfig
      else if strategy = ''portfolio-balance''
      then (portfolioBalanceSelection h workingStores targetConfig, workingStores)
      else if strategy = ''market-penetration''
      then (marketPenetrationSelection h workingStores targetConfig, workingStores)
      else if strategy = ''demographic-targeting''
      then (demographicTargetingSelection h workingStores targetConfig, workingStores)
      else revenueMaximizationSelection h workingStores targetConfig)"

text \<open>
  \<^verbatim>\<open>filteredStores || stores\<close>: an array is truthy even when it is empty, so only an
  absent argument (\<open>None\<close>) falls back to \<^verbatim>\<open>stores\<close>.
\<close>

definition workingStoresOf :: "ref list \<Rightarrow> ref list option \<Rightarrow> ref list" where
  "workingStoresOf stores filteredStores =
     (case filteredStores of None \<Rightarrow> stores | Some filtered \<Rightarrow> filtered)"

text \<open>
  The call returns the result; the second and third components are the contents of the
  caller's two arrays after the call (they are taken to be two different arrays).
\<close>

definition selectStores :: "heap \<Rightarrow> ref list \<Rightarrow> string \<Rightarrow> TargetConfig \<Rightarrow> ref list option \<Rightarrow> SelectionResult \<times> ref list \<times> ref list option" where
  "selectStores h stores strategy targetConfig filteredStores =
     (let workingStores = workingStoresOf stores filteredStores
      in if length workingStores = 0 then (createEmptyResult, stores, filteredStores)
         else (let run = runStrategy h strategy workingStores targetConfig
               in (generateResult h (fst run) (snd run),
                   (case filteredStores of None \<Rightarrow> snd run | Some _ \<Rightarrow> stores),
                   (case filteredStores of None \<Rightarrow> None | Some _ \<Rightarrow> Some (snd run)))))"

section \<open>The histogram\<close>

text \<open>
  A bin keeps its count and its stores; the display label is not modelled. The bin count
  is a natural number. Of an empty array every bin is empty, whatever the bounds are.
\<close>

record HistogramBin =
  binCount :: nat
  binStores :: "ref list"

definition histogramBin :: "heap \<Rightarrow> ref list \<Rightarrow> nat \<Rightarrow> real \<Rightarrow> real \<Rightarrow> nat \<Rightarrow> HistogramBin" where
  "histogramBin h stores bins lowest binSize i =
     (let binMin = lowest + real i * binSize;
          binMax = lowest + real (i + 1) * binSize;
          members = filter (\<lambda>store. prodSelect (h store) \<ge> binMin
                        \<and> (if int i = int bins - 1 then prodSelect (h store) \<le> binMax
                            else prodSelect (h store) < binMax)) stores
      in \<lparr>binCount = length members, binStores = members\<rparr>)"

definition generateHistogram :: "heap \<Rightarrow> ref list \<Rightarrow> nat \<Rightarrow> HistogramBin list" where
  "generateHistogram h stores bins =
     (case map (\<lambda>store. prodSelect (h store)) stores of
        [] \<Rightarrow> replicate bins \<lparr>binCount = 0, binStores = []\<rparr>
      | r # rs \<Rightarrow>
          (let lowest = fold min rs r;
               highest = fold max rs r;
               binSize = (highest - lowest) / real bins
           in map (histogramBin h stores bins lowest binSize) [0..<bins]))"

section \<open>The example of the specification\<close>

definition mkStore :: "string \<Rightarrow> real \<Rightarrow> StoreData" where
  "mkStore region revenue =
     \<lparr>naam = ''Shop'', crmId = ''c'', storeId = ''s'', stad = ''x'', straat = ''y'',
      nummer = ''1'', postcode = ''p'', kanaal = ''k'', storeType = ''t'',
      fieldSalesRegio = region, klantgroep = ''g'', prodSelect = revenue,
      strategie = ''z'', storeSize = 100\<rparr>"

text \<open>
  Ten stores, references 0 to 9 in the order of the array: five in North with revenues
  100 to 500, then five in South with revenues 150 to 550.
\<close>

definition exampleHeap :: heap where
  "exampleHeap r =
     (if r < 5 then mkStore ''North'' (100 * (real r + 1))
      else mkStore ''South'' (150 + 100 * (real r - 5)))"

definition exampleStores :: "ref list" where
  "exampleStores = [0, 1, 2, 3, 4, 5, 6, 7, 8, 9]"

text \<open>A heap whose stores all lie in a region named \<^verbatim>\<open>constructor\<close>.\<close>

definition constructorHeap :: heap where
  "constructorHeap r = mkStore ''constructor'' 100"

text \<open>What the example says of a selected store: its region and its revenue.\<close>

definition regionAndRevenue :: "heap \<Rightarrow> ref \<Rightarrow> string \<times> real" where
  "regionAndRevenue h store = (fieldSalesRegio (h store), prodSelect (h store))"

section \<open>Basic facts about the primitives\<close>

lemma js_slice_take_drop: "\<exists>n k. js_slice xs s e = take n (drop k xs)"
  unfolding js_slice_def Let_def by blast

lemma js_slice_0: "0 \<le> e \<Longrightarrow> js_slice xs 0 e = take (nat e) xs"
  by (simp add: js_slice_def Let_def min_def)

lemma mset_take_drop_subset: "mset (take n (drop k xs)) \<subseteq># mset xs"
proof -
  have "mset (take n (drop k xs)) \<subseteq># mset (drop k xs)"
    by (metis append_take_drop_id mset_append mset_subset_eq_add_left)
  also have "\<dots> \<subseteq># mset xs"
    by (metis append_take_drop_id mset_append mset_subset_eq_add_right)
  finally show ?thesis .
qed

lemma mset_js_slice: "mset (js_slice xs s e) \<subseteq># mset xs"
  using js_slice_take_drop [of xs s e] mset_take_drop_subset by metis

lemma set_js_slice: "set (js_slice xs s e) \<subseteq> set xs"
  using mset_js_slice [of xs s e] by (metis set_mset_mono set_mset_mset)

lemma length_js_slice_0: "0 \<le> e \<Longrightarrow> length (js_slice xs 0 e) \<le> nat e"
  by (simp add: js_slice_0)

lemma mset_js_sort_insert: "mset (js_sort_insert cmp a bs) = add_mset a (mset bs)"
  by (induction bs) simp_all

lemma mset_js_sort: "mset (js_sort cmp xs) = mset xs"
  unfolding js_sort_def by (induction xs) (simp_all add: mset_js_sort_insert)

lemma set_js_sort: "set (js_sort cmp xs) = set xs"
  by (metis mset_js_sort set_mset_mset)

lemma length_js_sort: "length (js_sort cmp xs) = length xs"
  by (metis mset_js_sort size_mset)

lemma fold_js_set_add: "distinct acc \<Longrightarrow>
  distinct (fold js_set_add xs acc) \<and> set (fold js_set_add xs acc) = set acc \<union> set xs"
  by (induction xs arbitrary: acc) (auto simp: js_set_add_def)

lemma distinct_js_set: "distinct (js_set xs)"
  using fold_js_set_add [of "[]" xs] by (simp add: js_set_def)

lemma set_js_set: "set (js_set xs) = set xs"
  using fold_js_set_add [of "[]" xs] by (simp add: js_set_def)

lemma distinct_subset_mset: "distinct A \<Longrightarrow> set A \<subseteq> set B \<Longrightarrow> mset A \<subseteq># mset B"
  by (metis List.finite_set mset_set_set mset_set_set_mset_msubset
    set_mset_mset subset_imp_msubset_mset_set subset_mset.dual_order.trans)

lemma mset_disjoint_parts:
  assumes "A \<subseteq># mset xs" and "B \<subseteq># mset (filter (\<lambda>x. x \<notin># A) xs)"
  shows "A + B \<subseteq># mset xs"
proof (rule mset_subset_eqI)
  fix a
  have b: "count B a \<le> count (mset (filter (\<lambda>x. x \<notin># A) xs)) a"
    using assms(2) by (rule mset_subset_eq_count)
  show "count (A + B) a \<le> count (mset xs) a"
  proof (cases "a \<in># A")
    case True
    with b have "count B a = 0" by simp
    then show ?thesis using mset_subset_eq_count [OF assms(1), of a] by simp
  next
    case False
    then have "count A a = 0" by (simp add: not_in_iff)
    then show ?thesis using b False by simp
  qed
qed

lemma mset_update_values:
  "mset (concat (map snd (AList.update k v al)))
     + mset (case map_of al k of None \<Rightarrow> [] | Some w \<Rightarrow> w)
   = mset (concat (map snd al)) + mset v"
  by (induction al) auto

lemma map_of_group_push:
  "map_of (group_push key s acc)
   = (map_of acc)(key s \<mapsto> (case map_of acc (key s) of None \<Rightarrow> [] | Some m \<Rightarrow> m) @ [s])"
  by (auto simp: group_push_def Let_def update_conv' split: option.splits)

lemma mset_group_push:
  "mset (concat (map snd (group_push key s acc))) = add_mset s (mset (concat (map snd acc)))"
proof (cases "map_of acc (key s)")
  case None
  have 1: "mset (concat (map snd (AList.update (key s) [] acc))) = mset (concat (map snd acc))"
    using mset_update_values [of "key s" "[]" acc] None by simp
  have 2: "map_of (AList.update (key s) [] acc) (key s) = Some []"
    by (simp add: update_conv')
  show ?thesis
    using mset_update_values [of "key s" "[s]" "AList.update (key s) [] acc"] None 1 2
    by (simp add: group_push_def Let_def)
next
  case (Some m)
  show ?thesis
    using mset_update_values [of "key s" "m @ [s]" acc] Some
    by (simp add: group_push_def Let_def)
qed

lemma mset_fold_group_push:
  "mset (concat (map snd (fold (group_push key) xs acc)))
   = mset (concat (map snd acc)) + mset xs"
  by (induction xs arbitrary: acc) (simp_all add: mset_group_push)

lemma mset_group_by_key: "mset (concat (map snd (group_by_key key xs))) = mset xs"
  by (simp add: group_by_key_def mset_fold_group_push)

lemma map_of_group_by_key:
  "map_of (group_by_key key xs) k
   = (if filter (\<lambda>s. key s = k) xs = [] then None else Some (filter (\<lambda>s. key s = k) xs))"
proof (induction xs arbitrary: k rule: rev_induct)
  case Nil
  show ?case by (simp add: group_by_key_def)
next
  case (snoc s xs)
  have step: "group_by_key key (xs @ [s]) = group_push key s (group_by_key key xs)"
    by (simp add: group_by_key_def)
  show ?case
    unfolding step map_of_group_push using snoc [of k] snoc [of "key s"]
    by (auto split: option.splits if_splits)
qed

lemma js_slice_nonneg:
  assumes "0 \<le> s" and "0 \<le> e"
  shows "js_slice xs s e = take (nat e - nat s) (drop (nat s) xs)"
proof (cases "nat s \<ge> length xs")
  case True
  with assms show ?thesis by (simp add: js_slice_def Let_def min_def)
next
  case False
  with assms show ?thesis
    by (cases "nat e \<ge> length xs") (auto simp: js_slice_def Let_def min_def nat_diff_distrib')
qed

lemma js_sort_single: "js_sort cmp [r] = [r]"
  by (simp add: js_sort_def)

lemma set_js_sort_insert: "set (js_sort_insert cmp a bs) = insert a (set bs)"
  by (induction bs) auto

lemma sorted_js_sort_insert:
  assumes tot: "\<And>x y. cmp x y \<le> 0 \<or> cmp y x \<le> 0"
    and trans: "\<And>x y z. cmp x y \<le> 0 \<Longrightarrow> cmp y z \<le> 0 \<Longrightarrow> cmp x z \<le> 0"
  shows "sorted_wrt (\<lambda>x y. cmp x y \<le> 0) bs \<Longrightarrow> sorted_wrt (\<lambda>x y. cmp x y \<le> 0) (js_sort_insert cmp a bs)"
proof (induction bs)
  case Nil
  show ?case by simp
next
  case (Cons b bs)
  show ?case
  proof (cases "cmp a b \<le> 0")
    case True
    with Cons.prems trans show ?thesis by auto
  next
    case False
    with tot have "cmp b a \<le> 0" by blast
    with False Cons show ?thesis by (auto simp: set_js_sort_insert)
  qed
qed

lemma sorted_js_sort:
  assumes "\<And>x y. cmp x y \<le> 0 \<or> cmp y x \<le> 0"
    and "\<And>x y z. cmp x y \<le> 0 \<Longrightarrow> cmp y z \<le> 0 \<Longrightarrow> cmp x z \<le> 0"
  shows "sorted_wrt (\<lambda>x y. cmp x y \<le> 0) (js_sort cmp xs)"
  unfolding js_sort_def
  by (induction xs) (simp_all add: sorted_js_sort_insert [OF assms])

lemma sorted_byRevenueDesc:
  "sorted_wrt (\<lambda>a b. prodSelect (h b) \<le> prodSelect (h a)) (js_sort (\<lambda>a b. prodSelect (h b) - prodSelect (h a)) xs)"
  using sorted_js_sort [of "\<lambda>a b. prodSelect (h b) - prodSelect (h a)" xs] by fastforce

section \<open>The dispatcher\<close>

lemma selectedStores_generateResult:
  "selectedStores (generateResult h selected allStores) = selected"
  by (simp add: generateResult_def Let_def)

lemma averageRevenue_generateResult_Nil:
  "averageRevenue (generateResult h [] allStores) = NaN"
  by (simp add: generateResult_def Let_def sumRevenue_def js_div_def)

lemma runStrategy_revenue:
  "runStrategy h ''revenue-focus'' ws tc = revenueMaximizationSelection h ws tc"
  by (simp add: runStrategy_def)

lemma runStrategy_growth:
  "runStrategy h ''growth-opportunities'' ws tc = growthPotentialSelection h ws tc"
  by (simp add: runStrategy_def)

lemma selectStores_nonempty:
  "workingStoresOf stores filteredStores \<noteq> [] \<Longrightarrow>
   fst (selectStores h stores strategy targetConfig filteredStores)
   = generateResult h
       (fst (runStrategy h strategy (workingStoresOf stores filteredStores) targetConfig))
       (snd (runStrategy h strategy (workingStoresOf stores filteredStores) targetConfig))"
  by (simp add: selectStores_def Let_def)

lemma revenue_single: "revenueMaximizationSelection h [r] \<lparr>total = 1\<rparr> = ([r], [r])"
  by (simp add: revenueMaximizationSelection_def js_sort_single js_slice_nonneg Let_def)

lemma growth_single: "fst (growthPotentialSelection h [r] \<lparr>total = 1\<rparr>) = []"
  unfolding growthPotentialSelection_def Let_def js_sort_single
  by (simp add: js_slice_nonneg)

lemma revenue_pair:
  "prodSelect (h a) < prodSelect (h b) \<Longrightarrow>
   snd (revenueMaximizationSelection h [a, b] tc) = [b, a]"
  by (simp add: revenueMaximizationSelection_def js_sort_def Let_def)

text \<open>
  Claim C2. Whatever the strategy identifier and the target configuration are, a call of
  \<open>selectStores\<close> whose working set is empty (for instance no stores and no filtered
  stores) returns the zeroed result: no selected store, total and average revenue 0,
  region coverage 0, all three tier counts 0, and statistics of zeros with an empty
  revenue-per-region table. The model has no failing branch on this path.
\<close>

theorem C2_empty_working_set:
  "workingStoresOf stores filteredStores = [] \<Longrightarrow>
   fst (selectStores h stores strategy targetConfig filteredStores)
   = \<lparr>selectedStores = [], totalRevenue = 0, averageRevenue = Finite 0,
      regionCoverage = Finite 0,
      performanceDistribution = \<lparr>high = 0, medium = 0, low = 0\<rparr>,
      statistics = \<lparr>totalStores = 0, uniqueRegions = 0, uniqueRetailers = 0,
                    revenuePerRegion = []\<rparr>\<rparr>"
  by (simp add: selectStores_def createEmptyResult_def)

theorem C2_empty_working_set_witness:
  "fst (selectStores exampleHeap [] ''portfolio-balance'' \<lparr>total = 10\<rparr> None)
   = \<lparr>selectedStores = [], totalRevenue = 0, averageRevenue = Finite 0,
      regionCoverage = Finite 0,
      performanceDistribution = \<lparr>high = 0, medium = 0, low = 0\<rparr>,
      statistics = \<lparr>totalStores = 0, uniqueRegions = 0, uniqueRetailers = 0,
                    revenuePerRegion = []\<rparr>\<rparr>"
  using C2_empty_working_set [of "[]" None exampleHeap "''portfolio-balance''" "\<lparr>total = 10\<rparr>"]
  by (simp add: workingStoresOf_def)

text \<open>
  Claim C3, as stated, fails: with one store and the filtered stores given as the empty
  array, the call does not select from all stores; it returns the empty selection, while
  the same call without filtered stores selects the store.
\<close>

theorem C3_empty_filter_counterexample:
  "selectedStores (fst (selectStores exampleHeap [0] ''revenue-focus'' \<lparr>total = 1\<rparr> None)) = [0]
   \<and> selectedStores (fst (selectStores exampleHeap [0] ''revenue-focus'' \<lparr>total = 1\<rparr> (Some []))) = []"
  by (simp add: selectStores_nonempty workingStoresOf_def runStrategy_revenue revenue_single
      selectedStores_generateResult)
     (simp add: selectStores_def workingStoresOf_def createEmptyResult_def)

text \<open>
  Claim C3, amended. The working set is the filtered stores whenever they are given, also
  when they are empty, and all stores only when no filtered stores are given: a call with
  filtered stores returns what the call on the filtered stores alone returns, and a call
  with the empty array as filtered stores returns the zeroed result.
\<close>

theorem C3_working_set:
  "fst (selectStores h stores strategy targetConfig (Some filtered))
     = fst (selectStores h filtered strategy targetConfig None)
   \<and> fst (selectStores h stores strategy targetConfig (Some [])) = createEmptyResult
   \<and> workingStoresOf stores (Some filtered) = filtered
   \<and> workingStoresOf stores None = stores"
  by (simp add: selectStores_def workingStoresOf_def Let_def)

theorem C3_working_set_witness:
  "fst (selectStores exampleHeap [0] ''revenue-focus'' \<lparr>total = 1\<rparr> (Some [1]))
     = fst (selectStores exampleHeap [1] ''revenue-focus'' \<lparr>total = 1\<rparr> None)
   \<and> fst (selectStores exampleHeap [0] ''revenue-focus'' \<lparr>total = 1\<rparr> (Some [])) = createEmptyResult"
  using C3_working_set [of exampleHeap "[0]" "''revenue-focus''" "\<lparr>total = 1\<rparr>" "[1]"]
  by simp

text \<open>
  Claim C4 says that the average revenue is 0 whenever the selection is empty. The code
  divides the total by the length of the selection without a guard: for a single store,
  Growth Opportunities with target 1 selects nothing, and the average revenue of the
  result is not a number.
\<close>

theorem C4_average_of_empty_selection:
  "selectedStores (fst (selectStores exampleHeap [0] ''growth-opportunities'' \<lparr>total = 1\<rparr> None)) = []
   \<and> averageRevenue (fst (selectStores exampleHeap [0] ''growth-opportunities'' \<lparr>total = 1\<rparr> None)) = NaN"
  by (simp add: selectStores_nonempty workingStoresOf_def runStrategy_growth growth_single
      selectedStores_generateResult averageRevenue_generateResult_Nil)

text \<open>
  What the two sorting strategies leave in the array they were given, and what a call
  without filtered stores leaves in the caller's array.
\<close>

lemma revenue_sorts_argument:
  "snd (revenueMaximizationSelection h stores targetConfig)
   = js_sort (\<lambda>a b. prodSelect (h b) - prodSelect (h a)) stores"
  by (simp add: revenueMaximizationSelection_def Let_def)

lemma growth_sorts_argument:
  "snd (growthPotentialSelection h stores targetConfig) = js_sort (byRevenueAsc h) stores"
  by (simp add: growthPotentialSelection_def Let_def)

lemma stores_after_selectStores:
  "stores \<noteq> [] \<Longrightarrow>
   fst (snd (selectStores h stores strategy targetConfig None))
   = snd (runStrategy h strategy stores targetConfig)"
  by (simp add: selectStores_def workingStoresOf_def Let_def)

text \<open>
  Claim C9 says that a call leaves the caller's arrays as they were. Revenue Focus sorts
  the working array in place: after a call on two stores in ascending order of revenue,
  the caller's array holds them in descending order.
\<close>

theorem C9_input_array_reordered:
  "fst (snd (selectStores exampleHeap [0, 1] ''revenue-focus'' \<lparr>total = 1\<rparr> None)) = [1, 0]"
proof -
  have "prodSelect (exampleHeap 0) < prodSelect (exampleHeap 1)"
    by (simp add: exampleHeap_def mkStore_def)
  then have "snd (revenueMaximizationSelection exampleHeap [0, 1] \<lparr>total = 1\<rparr>) = [1, 0]"
    by (rule revenue_pair)
  then show ?thesis
    by (simp add: selectStores_def workingStoresOf_def runStrategy_revenue Let_def)
qed

section \<open>Revenue Focus\<close>

lemma example_revenue:
  "fst (revenueMaximizationSelection exampleHeap exampleStores \<lparr>total = 3\<rparr>) = [9, 4, 8]"
  by code_simp

text \<open>
  Claim C6. For a target \<open>k\<close> with \<open>0 < k\<close> below the number of candidates, Revenue
  Focus returns \<open>k\<close> stores that are a top \<open>k\<close>: no candidate left out has a larger
  revenue than a selected store, and the selection is in descending order of revenue.
\<close>

theorem C6_revenue_focus_top_k:
  assumes "0 < k" and "k < int (length stores)"
  shows "length (fst (revenueMaximizationSelection h stores \<lparr>total = k\<rparr>)) = nat k
    \<and> (\<forall>s \<in> set (fst (revenueMaximizationSelection h stores \<lparr>total = k\<rparr>)).
         \<forall>u \<in> set stores - set (fst (revenueMaximizationSelection h stores \<lparr>total = k\<rparr>)).
           prodSelect (h u) \<le> prodSelect (h s))
    \<and> sorted_wrt (\<lambda>a b. prodSelect (h b) \<le> prodSelect (h a))
         (fst (revenueMaximizationSelection h stores \<lparr>total = k\<rparr>))"
proof -
  let ?sorted = "js_sort (\<lambda>a b. prodSelect (h b) - prodSelect (h a)) stores"
  have sel: "fst (revenueMaximizationSelection h stores \<lparr>total = k\<rparr>) = take (nat k) ?sorted"
    using assms by (simp add: revenueMaximizationSelection_def Let_def js_slice_0)
  have srt: "sorted_wrt (\<lambda>a b. prodSelect (h b) \<le> prodSelect (h a)) (take (nat k) ?sorted @ drop (nat k) ?sorted)"
    using sorted_byRevenueDesc [of h stores] by simp
  have len: "length (take (nat k) ?sorted) = nat k"
    using assms by (simp add: length_js_sort)
  have top: "prodSelect (h u) \<le> prodSelect (h s)"
    if "s \<in> set (take (nat k) ?sorted)" and "u \<in> set stores" and "u \<notin> set (take (nat k) ?sorted)" for s u
  proof -
    have "set ?sorted = set (take (nat k) ?sorted) \<union> set (drop (nat k) ?sorted)"
      by (metis append_take_drop_id set_append)
    with that(2,3) have "u \<in> set (drop (nat k) ?sorted)"
      by (simp add: set_js_sort)
    with srt that(1) show ?thesis unfolding sorted_wrt_append by blast
  qed
  have "sorted_wrt (\<lambda>a b. prodSelect (h b) \<le> prodSelect (h a)) (take (nat k) ?sorted)"
    using srt unfolding sorted_wrt_append by blast
  with len top show ?thesis unfolding sel by blast
qed

theorem C6_revenue_focus_top_k_witness:
  "length (fst (revenueMaximizationSelection exampleHeap exampleStores \<lparr>total = 3\<rparr>)) = 3
   \<and> prodSelect (exampleHeap 3) \<le> prodSelect (exampleHeap 8)"
proof -
  have a: "(0::int) < 3" and b: "3 < int (length exampleStores)"
    by (simp_all add: exampleStores_def)
  have "8 \<in> set (fst (revenueMaximizationSelection exampleHeap exampleStores \<lparr>total = 3\<rparr>))"
    and "3 \<in> set exampleStores - set (fst (revenueMaximizationSelection exampleHeap exampleStores \<lparr>total = 3\<rparr>))"
    unfolding example_revenue by (simp_all add: exampleStores_def)
  with C6_revenue_focus_top_k [OF a b, of exampleHeap] show ?thesis by auto
qed

section \<open>The example scenario\<close>

lemma example_geographic:
  "geographicDistributionSelection exampleHeap exampleStores \<lparr>total = 2\<rparr> = [4, 9]"
  by code_simp

lemma example_regionAndRevenue:
  "map (regionAndRevenue exampleHeap) [9, 4, 8] = [(''South'', 550), (''North'', 500), (''South'', 450)]"
  "map (regionAndRevenue exampleHeap) [4, 9] = [(''North'', 500), (''South'', 550)]"
  by (simp_all add: regionAndRevenue_def exampleHeap_def mkStore_def)

text \<open>
  Claim C8, as stated, fails in its second half: on the ten stores in the order given,
  Geographic Coverage with target 2 does not return the South store first.
\<close>

theorem C8_geographic_order_counterexample:
  "map (regionAndRevenue exampleHeap)
     (geographicDistributionSelection exampleHeap exampleStores \<lparr>total = 2\<rparr>)
   \<noteq> [(''South'', 550), (''North'', 500)]"
  unfolding example_geographic example_regionAndRevenue by simp

text \<open>
  Claim C8, amended. On the ten stores in the order given, Revenue Focus with target 3
  returns the stores with revenues 550, 500 and 450 in that order, and Geographic
  Coverage with target 2 returns the best store of each region in the order in which the
  regions first occur in the array: 500 (North), then 550 (South).
\<close>

theorem C8_example_scenario:
  "map (regionAndRevenue exampleHeap)
     (fst (revenueMaximizationSelection exampleHeap exampleStores \<lparr>total = 3\<rparr>))
   = [(''South'', 550), (''North'', 500), (''South'', 450)]
   \<and> map (regionAndRevenue exampleHeap)
       (geographicDistributionSelection exampleHeap exampleStores \<lparr>total = 2\<rparr>)
     = [(''North'', 500), (''South'', 550)]"
  unfolding example_geographic example_revenue example_regionAndRevenue by simp

text \<open>
  The order of the claim is what Geographic Coverage returns on the array that a call of
  Revenue Focus has sorted in place.
\<close>

lemma example_geographic_after_revenue:
  "map (regionAndRevenue exampleHeap)
     (geographicDistributionSelection exampleHeap
        (snd (revenueMaximizationSelection exampleHeap exampleStores \<lparr>total = 3\<rparr>))
        \<lparr>total = 2\<rparr>)
   = [(''South'', 550), (''North'', 500)]"
  by code_simp

section \<open>The histogram of equal values\<close>

lemma fold_min_const: "\<forall>x \<in> set rs. x = (v::real) \<Longrightarrow> fold min rs v = v"
  by (induction rs) simp_all

lemma fold_max_const: "\<forall>x \<in> set rs. x = (v::real) \<Longrightarrow> fold max rs v = v"
  by (induction rs) simp_all

lemma histogramBin_flat:
  assumes "\<forall>s \<in> set stores. prodSelect (h s) = v"
  shows "histogramBin h stores bins v 0 i
         = (if int i = int bins - 1 then \<lparr>binCount = length stores, binStores = stores\<rparr>
            else \<lparr>binCount = 0, binStores = []\<rparr>)"
proof -
  have "filter (\<lambda>store. v \<le> prodSelect (h store) \<and> prodSelect (h store) \<le> v) stores = stores"
    using assms by (simp add: filter_id_conv)
  moreover have "filter (\<lambda>store. v \<le> prodSelect (h store) \<and> prodSelect (h store) < v) stores = []"
    by (simp add: filter_empty_conv)
  ultimately show ?thesis by (simp add: histogramBin_def Let_def)
qed

text \<open>
  Claim C5, as stated, fails: the histogram of one store in 8 bins has nothing in bin 0;
  the store is in bin 7.
\<close>

theorem C5_first_bin_counterexample:
  "binCount (generateHistogram exampleHeap [0] 8 ! 0) = 0
   \<and> binCount (generateHistogram exampleHeap [0] 8 ! 7) = 1"
  by code_simp


text \<open>
  Claim C5, amended. For a non-empty array of stores whose revenues are all equal and at
  least one bin, the histogram has the requested number of bins, every bin but the last
  is empty, and the last bin holds all the stores: each store is in exactly one bin. The
  bin width is \<open>0 / bins = 0\<close>, so nothing is divided by zero.
\<close>

theorem C5_flat_histogram:
  assumes "stores \<noteq> []" and "\<forall>s \<in> set stores. prodSelect (h s) = v" and "1 \<le> bins"
  shows "generateHistogram h stores bins
         = replicate (bins - 1) \<lparr>binCount = 0, binStores = []\<rparr>
           @ [\<lparr>binCount = length stores, binStores = stores\<rparr>]"
proof -
  obtain s rest where st: "stores = s # rest" using assms(1) by (cases stores) auto
  have all: "\<forall>x \<in> set (map (\<lambda>store. prodSelect (h store)) rest). x = v"
    using assms(2) st by simp
  have hd: "prodSelect (h s) = v" using assms(2) st by simp
  have gen: "generateHistogram h stores bins = map (histogramBin h stores bins v 0) [0..<bins]"
    using fold_min_const [OF all] fold_max_const [OF all] hd
    by (simp add: generateHistogram_def st Let_def)
  obtain b where b: "bins = Suc b" using assms(3) by (cases bins) auto
  have "map (histogramBin h stores bins v 0) [0..<b] = replicate b \<lparr>binCount = 0, binStores = []\<rparr>"
    using histogramBin_flat [OF assms(2)] b by (simp add: list_eq_iff_nth_eq)
  moreover have "histogramBin h stores bins v 0 b = \<lparr>binCount = length stores, binStores = stores\<rparr>"
    using histogramBin_flat [OF assms(2)] b by simp
  ultimately show ?thesis unfolding gen by (simp add: b)
qed

theorem C5_flat_histogram_witness:
  "generateHistogram exampleHeap [0] 8
   = replicate 7 \<lparr>binCount = 0, binStores = []\<rparr> @ [\<lparr>binCount = 1, binStores = [0]\<rparr>]"
  using C5_flat_histogram [of "[0]" exampleHeap 100 8]
  by (simp add: exampleHeap_def mkStore_def)

section \<open>The performance tiers\<close>

lemma sorted_revenues_desc:
  "sorted_wrt (\<lambda>x y. y \<le> x) (js_sort (\<lambda>a b. b - a) (xs :: real list))"
  using sorted_js_sort [of "\<lambda>a b. b - a" xs] by fastforce

lemma sorted_desc_nth:
  fixes xs :: "real list"
  shows "sorted_wrt (\<lambda>x y. y \<le> x) xs \<Longrightarrow> i \<le> j \<Longrightarrow> j < length xs \<Longrightarrow> xs ! j \<le> xs ! i"
  by (cases "i = j") (auto simp: sorted_wrt_iff_nth_less)

lemma tiers_partition:
  fixes m t :: real
  assumes "m \<le> t"
  shows "length (filter (\<lambda>s. js_ge (f s) (Some t)) xs)
       + length (filter (\<lambda>s. js_ge (f s) (Some m) \<and> js_lt (f s) (Some t)) xs)
       + length (filter (\<lambda>s. js_lt (f s) (Some m)) xs) = length xs"
  using assms by (induction xs) (auto simp: js_ge_def js_lt_def)

lemma percentile_indices:
  assumes "0 < n"
  shows "0 \<le> \<lfloor>real n * 0.33\<rfloor>" and "\<lfloor>real n * 0.33\<rfloor> \<le> \<lfloor>real n * 0.66\<rfloor>"
    and "\<lfloor>real n * 0.66\<rfloor> < int n"
proof -
  show "0 \<le> \<lfloor>real n * 0.33\<rfloor>" by simp
  show "\<lfloor>real n * 0.33\<rfloor> \<le> \<lfloor>real n * 0.66\<rfloor>" by (rule floor_mono) simp
  have "real n * 0.66 < real n" using assms by simp
  then show "\<lfloor>real n * 0.66\<rfloor> < int n" by (simp add: floor_less_iff)
qed

lemma tiers_generateResult:
  "high (performanceDistribution (generateResult h selected allStores))
   + medium (performanceDistribution (generateResult h selected allStores))
   + low (performanceDistribution (generateResult h selected allStores))
   = length selected"
proof (cases "selected = []")
  case True
  then show ?thesis by (simp add: generateResult_def Let_def)
next
  case False
  let ?n = "length selected"
  let ?srt = "js_sort (\<lambda>a b. b - a) (map (\<lambda>store. prodSelect (h store)) selected)"
  let ?i = "\<lfloor>real ?n * 0.33\<rfloor>"
  let ?j = "\<lfloor>real ?n * 0.66\<rfloor>"
  have n: "0 < ?n" using False by simp
  have len: "length ?srt = ?n" by (simp add: length_js_sort)
  note idx = percentile_indices [OF n]
  have hi: "js_index ?srt ?i = Some (?srt ! nat ?i)"
    using idx by (simp add: js_index_def len)
  have me: "js_index ?srt ?j = Some (?srt ! nat ?j)"
    using idx(3) idx(1,2) by (simp add: js_index_def len)
  have j0: "0 \<le> ?j" using idx(1,2) by linarith
  have "nat ?i \<le> nat ?j"
    using idx(2) by (rule nat_mono)
  moreover have "nat ?j < length ?srt"
    unfolding len using idx(3) j0 by (simp only: nat_less_iff)
  ultimately have ord: "?srt ! nat ?j \<le> ?srt ! nat ?i"
    by (rule sorted_desc_nth [OF sorted_revenues_desc])
  show ?thesis
    unfolding generateResult_def Let_def len hi me
    using tiers_partition [OF ord, of "\<lambda>store. prodSelect (h store)" selected]
    by simp
qed

lemma totalStores_generateResult:
  "totalStores (statistics (generateResult h selected allStores)) = length selected"
  by (simp add: generateResult_def Let_def)

lemma example_tiers:
  "performanceDistribution (fst (selectStores exampleHeap exampleStores ''geographic-coverage'' \<lparr>total = 4\<rparr> None))
   = \<lparr>high = 2, medium = 1, low = 1\<rparr>"
  by code_simp

text \<open>
  Claim C10. In every result of \<open>selectStores\<close> the three tier counts add up to the
  number of selected stores, which is also the \<open>totalStores\<close> statistic: the medium
  threshold is not above the high threshold, so the three tests split the selection.
\<close>

theorem C10_tiers_partition_selection:
  "high (performanceDistribution (fst (selectStores h stores strategy targetConfig filteredStores)))
   + medium (performanceDistribution (fst (selectStores h stores strategy targetConfig filteredStores)))
   + low (performanceDistribution (fst (selectStores h stores strategy targetConfig filteredStores)))
   = totalStores (statistics (fst (selectStores h stores strategy targetConfig filteredStores)))
   \<and> totalStores (statistics (fst (selectStores h stores strategy targetConfig filteredStores)))
     = length (selectedStores (fst (selectStores h stores strategy targetConfig filteredStores)))"
proof (cases "workingStoresOf stores filteredStores = []")
  case True
  then show ?thesis by (simp add: selectStores_def createEmptyResult_def)
next
  case False
  show ?thesis
    unfolding selectStores_nonempty [OF False]
    by (simp add: tiers_generateResult totalStores_generateResult selectedStores_generateResult)
qed

theorem C10_tiers_partition_selection_witness:
  "totalStores (statistics (fst (selectStores exampleHeap exampleStores ''geographic-coverage'' \<lparr>total = 4\<rparr> None))) = 4
   \<and> length (selectedStores (fst (selectStores exampleHeap exampleStores ''geographic-coverage'' \<lparr>total = 4\<rparr> None))) = 4"
  using C10_tiers_partition_selection [of exampleHeap exampleStores "''geographic-coverage''" "\<lparr>total = 4\<rparr>" None]
  by (simp add: example_tiers)

section \<open>Geographic Coverage\<close>

lemma betterStore_fold_mem: "foldl (betterStore h) x rest \<in> insert x (set rest)"
  by (induction rest arbitrary: x) (auto simp: betterStore_def)

lemma js_reduce1_mem: "js_reduce1 (betterStore h) x rest \<in> set (x # rest)"
  using betterStore_fold_mem [of h x rest] by (simp add: js_reduce1_def)

lemma map_of_groupStoresByRegion:
  "map_of (groupStoresByRegion h stores) r
   = (if filter (\<lambda>s. fieldSalesRegio (h s) = r) stores = [] then None
      else Some (filter (\<lambda>s. fieldSalesRegio (h s) = r) stores))"
  by (simp add: groupStoresByRegion_def map_of_group_by_key)

lemma set_regionsOf: "set (regionsOf h stores) = (\<lambda>s. fieldSalesRegio (h s)) ` set stores"
  by (simp add: regionsOf_def set_js_set)

lemma distinct_regionsOf: "distinct (regionsOf h stores)"
  by (simp add: regionsOf_def distinct_js_set)

lemma bestPerRegionStep_present:
  assumes "r \<in> (\<lambda>s. fieldSalesRegio (h s)) ` set stores"
  shows "\<exists>p. p \<in> set stores \<and> fieldSalesRegio (h p) = r
           \<and> bestPerRegionStep h (groupStoresByRegion h stores) target r sel
             = (if int (length sel) < target then sel @ [p] else sel)"
proof -
  let ?g = "filter (\<lambda>s. fieldSalesRegio (h s) = r) stores"
  from assms have "?g \<noteq> []" by (auto simp: filter_empty_conv)
  then obtain x rest where g: "?g = x # rest" by (cases ?g) auto
  have "js_reduce1 (betterStore h) x rest \<in> set ?g"
    unfolding g by (rule js_reduce1_mem)
  then have "js_reduce1 (betterStore h) x rest \<in> set stores"
    and "fieldSalesRegio (h (js_reduce1 (betterStore h) x rest)) = r" by auto
  moreover have "bestPerRegionStep h (groupStoresByRegion h stores) target r sel
      = (if int (length sel) < target then sel @ [js_reduce1 (betterStore h) x rest] else sel)"
    by (simp add: bestPerRegionStep_def map_of_groupStoresByRegion g)
  ultimately show ?thesis by blast
qed

lemma bestPerRegion_distinct:
  assumes "distinct rs" and "set rs \<subseteq> (\<lambda>s. fieldSalesRegio (h s)) ` set stores"
    and "distinct sel" and "set sel \<subseteq> set stores"
    and "\<forall>s \<in> set sel. fieldSalesRegio (h s) \<notin> set rs"
  shows "distinct (fold (bestPerRegionStep h (groupStoresByRegion h stores) target) rs sel)
       \<and> set (fold (bestPerRegionStep h (groupStoresByRegion h stores) target) rs sel) \<subseteq> set stores"
  using assms
proof (induction rs arbitrary: sel)
  case Nil
  then show ?case by simp
next
  case (Cons r rs)
  from Cons.prems(2) have "r \<in> (\<lambda>s. fieldSalesRegio (h s)) ` set stores" by simp
  from bestPerRegionStep_present [OF this, of target sel]
  obtain p where p: "p \<in> set stores" "fieldSalesRegio (h p) = r"
    and step: "bestPerRegionStep h (groupStoresByRegion h stores) target r sel
               = (if int (length sel) < target then sel @ [p] else sel)" by blast
  let ?sel = "bestPerRegionStep h (groupStoresByRegion h stores) target r sel"
  have "p \<notin> set sel" using Cons.prems(5) p(2) by auto
  then have d: "distinct ?sel" using Cons.prems(3) by (simp add: step)
  have s: "set ?sel \<subseteq> set stores" using Cons.prems(4) p(1) by (simp add: step)
  have r: "\<forall>s \<in> set ?sel. fieldSalesRegio (h s) \<notin> set rs"
    using Cons.prems(1,5) p(2) by (auto simp: step)
  from Cons.prems(1,2) have "distinct rs" "set rs \<subseteq> (\<lambda>s. fieldSalesRegio (h s)) ` set stores"
    by simp_all
  from Cons.IH [OF this d s r] show ?case by simp
qed

lemma bestPerRegion_all:
  assumes "set rs \<subseteq> (\<lambda>s. fieldSalesRegio (h s)) ` set stores"
    and "int (length sel + length rs) \<le> target"
  shows "length (fold (bestPerRegionStep h (groupStoresByRegion h stores) target) rs sel)
           = length sel + length rs
       \<and> set sel \<subseteq> set (fold (bestPerRegionStep h (groupStoresByRegion h stores) target) rs sel)
       \<and> (\<forall>r \<in> set rs. \<exists>p \<in> set (fold (bestPerRegionStep h (groupStoresByRegion h stores) target) rs sel).
             fieldSalesRegio (h p) = r)"
  using assms
proof (induction rs arbitrary: sel)
  case Nil
  then show ?case by simp
next
  case (Cons r rs)
  from Cons.prems(1) have "r \<in> (\<lambda>s. fieldSalesRegio (h s)) ` set stores" by simp
  from bestPerRegionStep_present [OF this, of target sel]
  obtain p where p: "fieldSalesRegio (h p) = r"
    and step: "bestPerRegionStep h (groupStoresByRegion h stores) target r sel
               = (if int (length sel) < target then sel @ [p] else sel)" by blast
  have step': "bestPerRegionStep h (groupStoresByRegion h stores) target r sel = sel @ [p]"
    using Cons.prems(2) by (simp add: step)
  have "set rs \<subseteq> (\<lambda>s. fieldSalesRegio (h s)) ` set stores"
    and "int (length (sel @ [p]) + length rs) \<le> target"
    using Cons.prems by simp_all
  from Cons.IH [OF this] p show ?case by (auto simp: step')
qed

lemma roundRobinStep_extends: "\<exists>ys. fst (roundRobinStep regions i st) = fst st @ ys"
  by (auto simp: roundRobinStep_def split: option.splits list.splits)

lemma roundRobin_extends: "\<exists>ys. roundRobin regions target i st = fst st @ ys"
proof (induction regions target i st rule: roundRobin.induct)
  case (1 regions target regionIndex st)
  obtain ys where ys: "fst (roundRobinStep regions regionIndex st) = fst st @ ys"
    using roundRobinStep_extends by blast
  show ?case
  proof (cases "int (length (fst st)) < target \<and> \<not> Suc regionIndex > length regions * 10")
    case True
    with 1 obtain zs where
      "roundRobin regions target (Suc regionIndex) (roundRobinStep regions regionIndex st)
       = fst (roundRobinStep regions regionIndex st) @ zs" by blast
    with True ys show ?thesis by (subst roundRobin.simps) simp
  next
    case False
    with ys show ?thesis by (subst roundRobin.simps) auto
  qed
qed

text \<open>
  On region names that are no inherited member: if the number of distinct regions among
  the candidates is at most the target, then for every candidate the selection holds a
  store of the same region.
\<close>

lemma region_floor_total:
  assumes "int (card ((\<lambda>s. fieldSalesRegio (h s)) ` set stores)) \<le> total targetConfig"
  shows "\<forall>s \<in> set stores.
           \<exists>p \<in> set (geographicDistributionSelection h stores targetConfig).
             fieldSalesRegio (h p) = fieldSalesRegio (h s)"
proof -
  let ?target = "total targetConfig"
  let ?regions = "regionsOf h stores"
  let ?first = "fold (bestPerRegionStep h (groupStoresByRegion h stores) ?target) ?regions []"
  have card: "length ?regions = card ((\<lambda>s. fieldSalesRegio (h s)) ` set stores)"
    using distinct_card [OF distinct_regionsOf, of h stores] by (simp add: set_regionsOf)
  have "set ?regions \<subseteq> (\<lambda>s. fieldSalesRegio (h s)) ` set stores"
    by (simp add: set_regionsOf)
  moreover have "int (length ([] :: ref list) + length ?regions) \<le> ?target"
    using assms card by simp
  ultimately have first: "length ?first = length ?regions"
      "\<forall>r \<in> set ?regions. \<exists>p \<in> set ?first. fieldSalesRegio (h p) = r"
    using bestPerRegion_all [of ?regions h stores "[]" ?target] by simp_all
  obtain ys where sel: "geographicDistributionSelection h stores targetConfig
      = js_slice (?first @ ys) 0 ?target"
  proof (cases "?target - int (length ?first) > 0")
    case True
    obtain zs where "roundRobin ?regions ?target 0
        (?first, fold (sortRegionStep h) ?regions
           (groupStoresByRegion h (filter (\<lambda>store. store \<notin> set ?first) stores)))
      = ?first @ zs"
      using roundRobin_extends [of ?regions ?target 0] by fastforce
    with True that show ?thesis
      by (simp add: geographicDistributionSelection_def Let_def)
  next
    case False
    with that [of "[]"] show ?thesis
      by (simp add: geographicDistributionSelection_def Let_def)
  qed
  have "0 \<le> ?target" using assms by linarith
  then have "geographicDistributionSelection h stores targetConfig = take (nat ?target) (?first @ ys)"
    unfolding sel by (rule js_slice_0)
  moreover have "length ?first \<le> nat ?target" using first(1) card assms by linarith
  ultimately have "set ?first \<subseteq> set (geographicDistributionSelection h stores targetConfig)"
    by auto
  with first(2) show ?thesis by (fastforce simp: set_regionsOf)
qed

lemma region_floor_example:
  "\<exists>p \<in> set (geographicDistributionSelection exampleHeap exampleStores \<lparr>total = 2\<rparr>).
     fieldSalesRegio (exampleHeap p) = ''South''"
proof -
  have "(\<lambda>s. fieldSalesRegio (exampleHeap s)) ` set exampleStores = {''North'', ''South''}"
    by (auto simp: exampleStores_def exampleHeap_def mkStore_def)
  then have c: "int (card ((\<lambda>s. fieldSalesRegio (exampleHeap s)) ` set exampleStores))
      \<le> total \<lparr>total = 2\<rparr>"
    by simp
  have "7 \<in> set exampleStores" by (simp add: exampleStores_def)
  with region_floor_total [OF c] have
    "\<exists>p \<in> set (geographicDistributionSelection exampleHeap exampleStores \<lparr>total = 2\<rparr>).
       fieldSalesRegio (exampleHeap p) = fieldSalesRegio (exampleHeap 7)"
    by blast
  then show ?thesis by (simp add: exampleHeap_def mkStore_def)
qed

text \<open>The grouping with the inherited members, and Geographic Coverage built on it.\<close>

lemma group_push_js_ordinary:
  "key s \<notin> set objectPrototypeMembers \<Longrightarrow> group_push_js key s acc = Inr (group_push key s acc)"
  by (simp add: group_push_js_def)

lemma fold_group_push_js_ordinary:
  "\<forall>s \<in> set xs. key s \<notin> set objectPrototypeMembers \<Longrightarrow>
   fold_js (group_push_js key) xs acc = Inr (fold (group_push key) xs acc)"
  by (induction xs arbitrary: acc) (simp_all add: group_push_js_ordinary)

lemma groupStoresByRegionJS_ordinary:
  "\<forall>s \<in> set stores. fieldSalesRegio (h s) \<notin> set objectPrototypeMembers \<Longrightarrow>
   groupStoresByRegionJS h stores = Inr (groupStoresByRegion h stores)"
  by (simp add: groupStoresByRegionJS_def groupStoresByRegion_def group_by_key_def
      fold_group_push_js_ordinary)

lemma keys_group_push:
  "fst ` set (group_push key s acc) = insert (key s) (fst ` set acc)"
proof -
  have "dom (map_of (group_push key s acc)) = insert (key s) (dom (map_of acc))"
    by (simp add: map_of_group_push)
  then show ?thesis by (simp add: dom_map_of_conv_image_fst)
qed

lemma fold_group_push_js_throws:
  assumes "\<exists>s \<in> set xs. key s \<in> set objectPrototypeMembers"
    and "\<forall>k \<in> fst ` set acc. k \<notin> set objectPrototypeMembers"
  shows "fold_js (group_push_js key) xs acc = Inl TypeError"
  using assms
proof (induction xs arbitrary: acc)
  case Nil
  then show ?case by simp
next
  case (Cons x xs)
  show ?case
  proof (cases "key x \<in> set objectPrototypeMembers")
    case True
    with Cons.prems(2) have "key x \<notin> fst ` set acc" by blast
    then have "map_of acc (key x) = None" by (simp add: map_of_eq_None_iff)
    with True show ?thesis by (simp add: group_push_js_def)
  next
    case False
    then have step: "group_push_js key x acc = Inr (group_push key x acc)"
      by (rule group_push_js_ordinary)
    from False Cons.prems(1) have "\<exists>s \<in> set xs. key s \<in> set objectPrototypeMembers" by auto
    moreover from False Cons.prems(2)
    have "\<forall>k \<in> fst ` set (group_push key x acc). k \<notin> set objectPrototypeMembers"
      by (simp add: keys_group_push)
    ultimately show ?thesis using Cons.IH by (simp add: step)
  qed
qed

lemma groupStoresByRegionJS_throws:
  "\<exists>s \<in> set stores. fieldSalesRegio (h s) \<in> set objectPrototypeMembers \<Longrightarrow>
   groupStoresByRegionJS h stores = Inl TypeError"
  unfolding groupStoresByRegionJS_def by (rule fold_group_push_js_throws) simp_all

lemma geographicJS_throws:
  "\<exists>s \<in> set stores. fieldSalesRegio (h s) \<in> set objectPrototypeMembers \<Longrightarrow>
   geographicDistributionSelectionJS h stores targetConfig = Inl TypeError"
  by (simp add: geographicDistributionSelectionJS_def Let_def groupStoresByRegionJS_throws)

lemma geographicJS_ordinary:
  assumes "\<forall>s \<in> set stores. fieldSalesRegio (h s) \<notin> set objectPrototypeMembers"
  shows "geographicDistributionSelectionJS h stores targetConfig
         = Inr (geographicDistributionSelection h stores targetConfig)"
proof -
  have 1: "groupStoresByRegionJS h stores = Inr (groupStoresByRegion h stores)"
    using assms by (rule groupStoresByRegionJS_ordinary)
  have 2: "groupStoresByRegionJS h (filter P stores) = Inr (groupStoresByRegion h (filter P stores))" for P
    using assms by (intro groupStoresByRegionJS_ordinary) simp
  show ?thesis
    unfolding geographicDistributionSelectionJS_def geographicDistributionSelection_def Let_def 1 2
    by simp
qed

lemma region_floor_ordinary_names:
  assumes "\<forall>s \<in> set stores. fieldSalesRegio (h s) \<notin> set objectPrototypeMembers"
    and "int (card ((\<lambda>s. fieldSalesRegio (h s)) ` set stores)) \<le> total targetConfig"
  shows "\<exists>sel. geographicDistributionSelectionJS h stores targetConfig = Inr sel
           \<and> (\<forall>s \<in> set stores. \<exists>p \<in> set sel. fieldSalesRegio (h p) = fieldSalesRegio (h s))"
  using geographicJS_ordinary [OF assms(1)] region_floor_total [OF assms(2)] by simp

lemma example_geographic_js:
  "geographicDistributionSelectionJS exampleHeap exampleStores \<lparr>total = 2\<rparr> = Inr [4, 9]"
proof -
  have "\<forall>s \<in> set exampleStores. fieldSalesRegio (exampleHeap s) \<notin> set objectPrototypeMembers"
    by (simp add: exampleStores_def exampleHeap_def mkStore_def objectPrototypeMembers_def)
  then show ?thesis by (simp add: geographicJS_ordinary example_geographic)
qed

text \<open>
  Claim C7 says that Geographic Coverage represents every region present when the regions
  are at most the target. The code groups the stores in a plain object. For one store in
  a region named \<^verbatim>\<open>constructor\<close> and target 1 (one region, so the condition of the claim
  holds) the grouping reads the inherited member, finds no \<^verbatim>\<open>push\<close> on it and throws:
  no selection is returned, and the region is not represented. On all other region names
  the claim holds (\<open>region_floor_ordinary_names\<close>).
\<close>

theorem C7_prototype_region_throws:
  "int (card ((\<lambda>s. fieldSalesRegio (constructorHeap s)) ` set [0])) \<le> total \<lparr>total = 1\<rparr>
   \<and> geographicDistributionSelectionJS constructorHeap [0] \<lparr>total = 1\<rparr> = Inl TypeError"
  by (simp add: geographicJS_throws constructorHeap_def mkStore_def objectPrototypeMembers_def)

section \<open>What every strategy selects\<close>

text \<open>
  Each strategy returns a sub-multiset of its candidates: a store is selected at most as
  often as it occurs in the candidate array.
\<close>

lemma mset_concat_perm:
  assumes "mset xs = mset ys"
  shows "mset (concat (map f xs)) = mset (concat (map f ys))"
proof -
  have "mset (concat (map f zs)) = \<Sum>\<^sub># (image_mset (\<lambda>z. mset (f z)) (mset zs))" for zs
    by (induction zs) simp_all
  with assms show ?thesis by simp
qed

lemma mset_object_entries: "mset (object_entries obj) = mset obj"
  by (simp add: object_entries_def)

lemma roundRobinStep_mset:
  "mset (fst (roundRobinStep regions i st)) + mset (concat (map snd (snd (roundRobinStep regions i st))))
   = mset (fst st) + mset (concat (map snd (snd st)))"
proof (cases "regions = []")
  case True
  then show ?thesis by (simp add: roundRobinStep_def)
next
  case False
  let ?r = "regions ! (i mod length regions)"
  show ?thesis
  proof (cases "map_of (snd st) ?r")
    case None
    with False show ?thesis by (simp add: roundRobinStep_def)
  next
    case (Some q)
    show ?thesis
    proof (cases q)
      case Nil
      with Some False show ?thesis by (simp add: roundRobinStep_def)
    next
      case (Cons x rest)
      have "mset (concat (map snd (AList.update ?r rest (snd st)))) + mset (x # rest)
            = mset (concat (map snd (snd st))) + mset rest"
        using mset_update_values [of ?r rest "snd st"] Some Cons by simp
      then have "add_mset x (mset (concat (map snd (AList.update ?r rest (snd st)))))
            = mset (concat (map snd (snd st)))" by simp
      with Some Cons False show ?thesis by (simp add: roundRobinStep_def)
    qed
  qed
qed

lemma roundRobin_mset:
  "mset (roundRobin regions target i st) \<subseteq># mset (fst st) + mset (concat (map snd (snd st)))"
proof (induction regions target i st rule: roundRobin.induct)
  case (1 regions target regionIndex st)
  note step = roundRobinStep_mset [of regions regionIndex st]
  show ?case
  proof (cases "int (length (fst st)) < target")
    case False
    then show ?thesis by (subst roundRobin.simps) simp
  next
    case True
    show ?thesis
    proof (cases "Suc regionIndex > length regions * 10")
      case stop: True
      have "mset (fst (roundRobinStep regions regionIndex st))
            \<subseteq># mset (fst st) + mset (concat (map snd (snd st)))"
        unfolding step [symmetric] by simp
      with True stop show ?thesis by (subst roundRobin.simps) simp
    next
      case go: False
      from 1 [OF True go] show ?thesis
        unfolding step using True go by (subst roundRobin.simps) simp
    qed
  qed
qed

lemma sortRegionStep_mset:
  "mset (concat (map snd (sortRegionStep h r al))) = mset (concat (map snd al))"
proof (cases "map_of al r")
  case None
  then show ?thesis by (simp add: sortRegionStep_def)
next
  case (Some rs)
  then show ?thesis
    using mset_update_values [of r "js_sort (byRevenueDesc h) rs" al]
    by (simp add: sortRegionStep_def mset_js_sort)
qed

lemma fold_sortRegionStep_mset:
  "mset (concat (map snd (fold (sortRegionStep h) rs al))) = mset (concat (map snd al))"
  by (induction rs arbitrary: al) (simp_all add: sortRegionStep_mset)


lemma mset_geographic:
  "mset (geographicDistributionSelection h stores targetConfig) \<subseteq># mset stores"
proof -
  let ?target = "total targetConfig"
  let ?regions = "regionsOf h stores"
  let ?first = "fold (bestPerRegionStep h (groupStoresByRegion h stores) ?target) ?regions []"
  let ?avail = "filter (\<lambda>store. store \<notin> set ?first) stores"
  let ?queues = "fold (sortRegionStep h) ?regions (groupStoresByRegion h ?avail)"
  have first: "distinct ?first" "set ?first \<subseteq> set stores"
    using bestPerRegion_distinct [of ?regions h stores "[]" ?target]
    by (simp_all add: distinct_regionsOf set_regionsOf)
  have parts: "mset ?first + mset ?avail \<subseteq># mset stores"
    using mset_disjoint_parts [of "mset ?first" stores "mset ?avail"]
      distinct_subset_mset [OF first] by simp
  have queues: "mset (concat (map snd ?queues)) = mset ?avail"
    by (simp add: fold_sortRegionStep_mset groupStoresByRegion_def mset_group_by_key)
  have "mset (roundRobin ?regions ?target 0 (?first, ?queues)) \<subseteq># mset ?first + mset ?avail"
    using roundRobin_mset [of ?regions ?target 0 "(?first, ?queues)"] queues by simp
  then have rr: "mset (roundRobin ?regions ?target 0 (?first, ?queues)) \<subseteq># mset stores"
    using parts by (rule subset_mset.order_trans)
  have f: "mset ?first \<subseteq># mset stores" by (rule distinct_subset_mset [OF first])
  have "geographicDistributionSelection h stores targetConfig
        = js_slice (if ?target - int (length ?first) > 0
                    then roundRobin ?regions ?target 0 (?first, ?queues) else ?first) 0 ?target"
    by (simp add: geographicDistributionSelection_def Let_def)
  then show ?thesis
    using rr f mset_js_slice [of "roundRobin ?regions ?target 0 (?first, ?queues)" 0 ?target]
      mset_js_slice [of ?first 0 ?target]
    by (auto intro: subset_mset.order_trans)
qed


lemma set_js_set_add: "set (js_set_add x acc) = insert x (set acc)"
  by (auto simp: js_set_add_def)

lemma regionPass_distinct:
  assumes "distinct (fst st)" and "\<forall>s \<in> set (fst st). fieldSalesRegio (h s) \<in> set (snd st)"
    and "set (fst st) \<subseteq> S" and "set cands \<subseteq> S"
  shows "distinct (fst (fold (regionPassStep h target) cands st))
       \<and> set (fst (fold (regionPassStep h target) cands st)) \<subseteq> S"
  using assms
proof (induction cands arbitrary: st)
  case Nil
  then show ?case by simp
next
  case (Cons c cands)
  let ?st = "regionPassStep h target c st"
  have "distinct (fst ?st)"
    using Cons.prems(1,2) by (auto simp: regionPassStep_def)
  moreover have "\<forall>s \<in> set (fst ?st). fieldSalesRegio (h s) \<in> set (snd ?st)"
    using Cons.prems(2) by (auto simp: regionPassStep_def set_js_set_add)
  moreover have "set (fst ?st) \<subseteq> S"
    using Cons.prems(3,4) by (auto simp: regionPassStep_def)
  moreover have "set cands \<subseteq> S" using Cons.prems(4) by simp
  ultimately show ?case using Cons.IH [of ?st] by simp
qed

lemma fillPass_distinct:
  assumes "distinct sel" and "set sel \<subseteq> S" and "set cands \<subseteq> S"
  shows "distinct (fold (fillPassStep target) cands sel)
       \<and> set (fold (fillPassStep target) cands sel) \<subseteq> S"
  using assms
  by (induction cands arbitrary: sel) (auto simp: fillPassStep_def)

lemma mset_growth:
  "mset (fst (growthPotentialSelection h stores targetConfig)) \<subseteq># mset stores"
proof -
  let ?target = "total targetConfig"
  let ?sorted = "js_sort (byRevenueAsc h) stores"
  let ?middle = "js_slice ?sorted \<lfloor>real (length ?sorted) * 0.2\<rfloor> \<lfloor>real (length ?sorted) * 0.7\<rfloor>"
  let ?cands = "if int (length ?middle) < ?target
                then ?middle @ js_slice ?sorted 0 \<lfloor>real (length ?sorted) * 0.2\<rfloor> else ?middle"
  let ?first = "fst (fold (regionPassStep h ?target) ?cands ([], []))"
  let ?sel = "fold (fillPassStep ?target) ?cands ?first"
  have cands: "set ?cands \<subseteq> set stores"
    using set_js_slice [of ?sorted] by (auto simp: set_js_sort)
  have "distinct ?first \<and> set ?first \<subseteq> set stores"
    by (rule regionPass_distinct [OF _ _ _ cands]) simp_all
  then have "distinct ?sel \<and> set ?sel \<subseteq> set stores"
    using fillPass_distinct [OF _ _ cands] by blast
  then have "mset ?sel \<subseteq># mset stores" by (simp add: distinct_subset_mset)
  moreover have "fst (growthPotentialSelection h stores targetConfig) = js_slice ?sel 0 ?target"
    by (simp add: growthPotentialSelection_def Let_def)
  ultimately show ?thesis
    using mset_js_slice [of ?sel 0 ?target] by (auto intro: subset_mset.order_trans)
qed

lemma mset_revenue:
  "mset (fst (revenueMaximizationSelection h stores targetConfig)) \<subseteq># mset stores"
  using mset_js_slice [of "js_sort (\<lambda>a b. prodSelect (h b) - prodSelect (h a)) stores" 0 "total targetConfig"]
  by (simp add: revenueMaximizationSelection_def Let_def mset_js_sort)


lemma underrepresentedStep_cases:
  "underrepresentedStep h remaining n r ex = ex
   \<or> (\<exists>p. p \<in> set remaining \<and> fieldSalesRegio (h p) = r
          \<and> underrepresentedStep h remaining n r ex = ex @ [p])"
proof (cases "filter (\<lambda>store. fieldSalesRegio (h store) = r) remaining")
  case Nil
  then show ?thesis by (simp add: underrepresentedStep_def)
next
  case (Cons x rest)
  have "js_reduce1 (betterStore h) x rest \<in> set (filter (\<lambda>store. fieldSalesRegio (h store) = r) remaining)"
    unfolding Cons by (rule js_reduce1_mem)
  then have "js_reduce1 (betterStore h) x rest \<in> set remaining"
    and "fieldSalesRegio (h (js_reduce1 (betterStore h) x rest)) = r" by auto
  then show ?thesis by (auto simp: underrepresentedStep_def Cons)
qed

lemma underrepresented_distinct:
  assumes "distinct rs" and "distinct ex" and "set ex \<subseteq> set remaining"
    and "\<forall>s \<in> set ex. fieldSalesRegio (h s) \<notin> set rs"
  shows "distinct (fold (underrepresentedStep h remaining n) rs ex)
       \<and> set (fold (underrepresentedStep h remaining n) rs ex) \<subseteq> set remaining"
  using assms
proof (induction rs arbitrary: ex)
  case Nil
  then show ?case by simp
next
  case (Cons r rs)
  let ?exs = "underrepresentedStep h remaining n r ex"
  from underrepresentedStep_cases [of h remaining n r ex]
  have "distinct ?exs \<and> set ?exs \<subseteq> set remaining
        \<and> (\<forall>s \<in> set ?exs. fieldSalesRegio (h s) \<notin> set rs)"
  proof
    assume "?exs = ex"
    with Cons.prems show ?thesis by simp
  next
    assume "\<exists>p. p \<in> set remaining \<and> fieldSalesRegio (h p) = r \<and> ?exs = ex @ [p]"
    then obtain p where p: "p \<in> set remaining" "fieldSalesRegio (h p) = r" "?exs = ex @ [p]"
      by blast
    have "p \<notin> set ex" using Cons.prems(4) p(2) by auto
    with Cons.prems p show ?thesis by auto
  qed
  moreover have "distinct rs" using Cons.prems(1) by simp
  ultimately show ?case using Cons.IH [of ?exs] by simp
qed

lemma mset_experimental:
  "mset (experimentalSelection h stores selected remaining n) \<subseteq># mset remaining"
proof -
  let ?under = "filter (\<lambda>region. region \<notin> set (regionsOf h selected)) (regionsOf h stores)"
  let ?first = "fold (underrepresentedStep h remaining n) ?under []"
  let ?rest = "filter (\<lambda>store. store \<notin> set ?first) remaining"
  let ?tail = "js_slice (js_sort (byRevenueAsc h) ?rest) 0 (n - int (length ?first))"
  have "distinct ?under" by (simp add: distinct_regionsOf)
  then have first: "distinct ?first" "set ?first \<subseteq> set remaining"
    using underrepresented_distinct [of ?under "[]" remaining h n] by simp_all
  have "mset ?tail \<subseteq># mset ?rest"
    using mset_js_slice [of "js_sort (byRevenueAsc h) ?rest" 0 "n - int (length ?first)"]
    by (simp add: mset_js_sort)
  then have "mset ?first + mset ?tail \<subseteq># mset remaining"
    using mset_disjoint_parts [of "mset ?first" remaining "mset ?tail"]
      distinct_subset_mset [OF first] by simp
  then show ?thesis by (simp add: experimentalSelection_def Let_def)
qed

lemma mset_disjoint_lists:
  assumes "mset A \<subseteq># mset xs" and "mset B \<subseteq># mset (filter (\<lambda>x. x \<notin> set A) xs)"
  shows "mset (A @ B) \<subseteq># mset xs"
  using mset_disjoint_parts [of "mset A" xs "mset B"] assms by simp

lemma mset_portfolio:
  "mset (portfolioBalanceSelection h stores targetConfig) \<subseteq># mset stores"
proof -
  let ?target = "total targetConfig"
  let ?coreCount = "js_round (real_of_int ?target * 0.7)"
  let ?growthCount = "js_round (real_of_int ?target * 0.2)"
  let ?n = "?target - ?coreCount - ?growthCount"
  let ?core = "geographicDistributionSelection h stores (targetConfig\<lparr>total := ?coreCount\<rparr>)"
  let ?remainingStores = "filter (\<lambda>store. store \<notin> set ?core) stores"
  let ?growth = "fst (growthPotentialSelection h ?remainingStores (targetConfig\<lparr>total := ?growthCount\<rparr>))"
  let ?sel = "?core @ ?growth"
  let ?final = "filter (\<lambda>store. store \<notin> set ?sel) stores"
  let ?exs = "experimentalSelection h stores ?sel ?final ?n"
  have sel: "mset ?sel \<subseteq># mset stores"
    by (rule mset_disjoint_lists [OF mset_geographic mset_growth])
  have all: "mset (?sel @ ?exs) \<subseteq># mset stores"
    by (rule mset_disjoint_lists [OF sel mset_experimental])
  define c where "c \<longleftrightarrow> length ?final > 0 \<and> ?n > 0"
  have eq: "portfolioBalanceSelection h stores targetConfig
        = js_slice (if c then ?sel @ ?exs else ?sel) 0 ?target"
    unfolding portfolioBalanceSelection_def Let_def c_def by (rule refl)
  show ?thesis
  proof (cases c)
    case True
    then have "portfolioBalanceSelection h stores targetConfig = js_slice (?sel @ ?exs) 0 ?target"
      unfolding eq by (simp only: if_P)
    then show ?thesis
      using subset_mset.order_trans [OF mset_js_slice all] by (simp only:)
  next
    case False
    then have "portfolioBalanceSelection h stores targetConfig = js_slice ?sel 0 ?target"
      unfolding eq by (simp only: if_False if_not_P)
    then show ?thesis
      using subset_mset.order_trans [OF mset_js_slice sel] by (simp only:)
  qed
qed


lemma penetrationStep_mset:
  "mset (penetrationStep h stores target d sel) \<subseteq># mset sel + mset (rd_stores d)"
proof (cases "int (length sel) \<ge> target")
  case True
  then show ?thesis by (simp add: penetrationStep_def)
next
  case False
  have "mset (js_slice (js_sort (byRevenueDesc h) (rd_stores d)) 0 k) \<subseteq># mset (rd_stores d)" for k
    using mset_js_slice [of "js_sort (byRevenueDesc h) (rd_stores d)" 0 k] by (simp add: mset_js_sort)
  with False show ?thesis by (simp add: penetrationStep_def Let_def)
qed

lemma fold_penetrationStep_mset:
  "mset (fold (penetrationStep h stores target) ds sel)
   \<subseteq># mset sel + mset (concat (map rd_stores ds))"
proof (induction ds arbitrary: sel)
  case Nil
  show ?case by simp
next
  case (Cons d ds)
  have "mset (fold (penetrationStep h stores target) ds (penetrationStep h stores target d sel))
        \<subseteq># mset (penetrationStep h stores target d sel) + mset (concat (map rd_stores ds))"
    by (rule Cons.IH)
  also have "\<dots> \<subseteq># (mset sel + mset (rd_stores d)) + mset (concat (map rd_stores ds))"
    using penetrationStep_mset [of h stores target d sel] by simp
  finally show ?case by (simp add: ac_simps)
qed

lemma mset_market:
  "mset (marketPenetrationSelection h stores targetConfig) \<subseteq># mset stores"
proof -
  let ?entries = "object_entries (groupStoresByRegion h stores)"
  let ?ds = "js_sort byDensity (map (regionDensityOf h) ?entries)"
  have "mset (concat (map rd_stores ?ds))
        = mset (concat (map rd_stores (map (regionDensityOf h) ?entries)))"
    by (rule mset_concat_perm) (rule mset_js_sort)
  also have "\<dots> = mset (concat (map snd ?entries))"
    by (simp add: regionDensityOf_def comp_def)
  also have "\<dots> = mset (concat (map snd (groupStoresByRegion h stores)))"
    by (rule mset_concat_perm) (rule mset_object_entries)
  also have "\<dots> = mset stores"
    by (simp add: groupStoresByRegion_def mset_group_by_key)
  finally have "mset (fold (penetrationStep h stores (total targetConfig)) ?ds []) \<subseteq># mset stores"
    using fold_penetrationStep_mset [of h stores "total targetConfig" ?ds "[]"] by simp
  then show ?thesis
    using mset_js_slice [of "fold (penetrationStep h stores (total targetConfig)) ?ds []" 0 "total targetConfig"]
    by (auto simp: marketPenetrationSelection_def Let_def intro: subset_mset.order_trans)
qed

lemma segmentStep_mset:
  "mset (segmentStep target seg sel) \<subseteq># mset sel + mset (sp_stores seg)"
proof (cases "int (length sel) \<ge> target")
  case True
  then show ?thesis by (simp add: segmentStep_def)
next
  case False
  then show ?thesis
    using mset_js_slice [of "sp_stores seg" 0] by (simp add: segmentStep_def Let_def)
qed

lemma fold_segmentStep_mset:
  "mset (fold (segmentStep target) segs sel) \<subseteq># mset sel + mset (concat (map sp_stores segs))"
proof (induction segs arbitrary: sel)
  case Nil
  show ?case by simp
next
  case (Cons g segs)
  have "mset (fold (segmentStep target) segs (segmentStep target g sel))
        \<subseteq># mset (segmentStep target g sel) + mset (concat (map sp_stores segs))"
    by (rule Cons.IH)
  also have "\<dots> \<subseteq># (mset sel + mset (sp_stores g)) + mset (concat (map sp_stores segs))"
    using segmentStep_mset [of target g sel] by simp
  finally show ?case by (simp add: ac_simps)
qed

lemma mset_segment_stores:
  "mset (concat (map sp_stores (map (segmentPerformanceOf h) entries)))
   = mset (concat (map snd entries))"
  by (induction entries) (simp_all add: segmentPerformanceOf_def mset_js_sort)

lemma mset_demographic:
  "mset (demographicTargetingSelection h stores targetConfig) \<subseteq># mset stores"
proof -
  let ?entries = "object_entries (group_by_key (demographicKey h) stores)"
  let ?segs = "js_sort byAvgRevenue (map (segmentPerformanceOf h) ?entries)"
  have "mset (concat (map sp_stores ?segs))
        = mset (concat (map sp_stores (map (segmentPerformanceOf h) ?entries)))"
    by (rule mset_concat_perm) (rule mset_js_sort)
  also have "\<dots> = mset (concat (map snd ?entries))"
    by (rule mset_segment_stores)
  also have "\<dots> = mset (concat (map snd (group_by_key (demographicKey h) stores)))"
    by (rule mset_concat_perm) (rule mset_object_entries)
  also have "\<dots> = mset stores"
    by (rule mset_group_by_key)
  finally have "mset (fold (segmentStep (total targetConfig)) ?segs []) \<subseteq># mset stores"
    using fold_segmentStep_mset [of "total targetConfig" ?segs "[]"] by simp
  then show ?thesis
    using mset_js_slice [of "fold (segmentStep (total targetConfig)) ?segs []" 0 "total targetConfig"]
    by (auto simp: demographicTargetingSelection_def Let_def intro: subset_mset.order_trans)
qed


lemma mset_runStrategy:
  "mset (fst (runStrategy h strategy stores targetConfig)) \<subseteq># mset stores"
  by (simp add: runStrategy_def mset_revenue mset_geographic mset_growth mset_portfolio
      mset_market mset_demographic)

lemma runStrategy_is_slice:
  "\<exists>xs. fst (runStrategy h strategy stores targetConfig) = js_slice xs 0 (total targetConfig)"
proof -
  have "\<exists>xs. fst (revenueMaximizationSelection h stores targetConfig) = js_slice xs 0 (total targetConfig)"
    unfolding revenueMaximizationSelection_def Let_def fst_conv by (rule exI) (rule refl)
  moreover have "\<exists>xs. geographicDistributionSelection h stores targetConfig = js_slice xs 0 (total targetConfig)"
    unfolding geographicDistributionSelection_def Let_def by (rule exI) (rule refl)
  moreover have "\<exists>xs. fst (growthPotentialSelection h stores targetConfig) = js_slice xs 0 (total targetConfig)"
    unfolding growthPotentialSelection_def Let_def fst_conv by (rule exI) (rule refl)
  moreover have "\<exists>xs. portfolioBalanceSelection h stores targetConfig = js_slice xs 0 (total targetConfig)"
    unfolding portfolioBalanceSelection_def Let_def by (rule exI) (rule refl)
  moreover have "\<exists>xs. marketPenetrationSelection h stores targetConfig = js_slice xs 0 (total targetConfig)"
    unfolding marketPenetrationSelection_def Let_def by (rule exI) (rule refl)
  moreover have "\<exists>xs. demographicTargetingSelection h stores targetConfig = js_slice xs 0 (total targetConfig)"
    unfolding demographicTargetingSelection_def Let_def by (rule exI) (rule refl)
  ultimately show ?thesis by (simp add: runStrategy_def)
qed

lemma distinct_of_mset_subset:
  assumes "mset A \<subseteq># mset B" and "distinct B"
  shows "distinct A"
  unfolding distinct_count_atmost_1
proof
  fix a
  have le: "count (mset A) a \<le> count (mset B) a"
    using assms(1) by (rule mset_subset_eq_count)
  have "count (mset B) a \<le> 1"
    using assms(2) by (simp add: distinct_count_atmost_1)
  with le have le1: "count (mset A) a \<le> 1" by linarith
  show "count (mset A) a = (if a \<in> set A then 1 else 0)"
  proof (cases "a \<in> set A")
    case True
    then have "0 < count (mset A) a" by (rule count_mset_gt_0)
    with le1 have "count (mset A) a = 1" by linarith
    then show ?thesis using True by (simp only: if_True)
  next
    case False
    then show ?thesis by (simp add: count_mset_0_iff)
  qed
qed

text \<open>
  Claim C1, as stated, fails in two ways. For a negative target, \<^verbatim>\<open>slice(0, -1)\<close> drops
  only the last element, so Revenue Focus on two stores returns one store, more than the
  minimum of the target and the number of candidates. And for a candidate array that
  holds the same store twice, Revenue Focus returns that store twice.
\<close>

theorem C1_bounds_counterexample:
  "\<not> int (length (fst (runStrategy exampleHeap ''revenue-focus'' [0, 1] \<lparr>total = - 1\<rparr>)))
       \<le> min (- 1) (int (length [0 :: ref, 1]))
   \<and> \<not> distinct (fst (runStrategy exampleHeap ''revenue-focus'' [0, 0] \<lparr>total = 2\<rparr>))"
  by code_simp

text \<open>
  Claim C1, amended. For every strategy identifier, every candidate array and every
  target that is not negative, the selection has at most as many stores as the target
  and as the candidates, holds only candidates, and holds no store more often than the
  candidate array does; so it holds no store twice when no candidate is repeated.
\<close>

theorem C1_selection_bounds:
  assumes "0 \<le> total targetConfig"
  shows "int (length (fst (runStrategy h strategy stores targetConfig)))
           \<le> min (total targetConfig) (int (length stores))
    \<and> set (fst (runStrategy h strategy stores targetConfig)) \<subseteq> set stores
    \<and> mset (fst (runStrategy h strategy stores targetConfig)) \<subseteq># mset stores
    \<and> (distinct stores \<longrightarrow> distinct (fst (runStrategy h strategy stores targetConfig)))"
proof -
  let ?sel = "fst (runStrategy h strategy stores targetConfig)"
  have sub: "mset ?sel \<subseteq># mset stores" by (rule mset_runStrategy)
  obtain xs where "?sel = js_slice xs 0 (total targetConfig)"
    using runStrategy_is_slice by blast
  then have "length ?sel \<le> nat (total targetConfig)"
    using length_js_slice_0 [OF assms, of xs] by simp
  then have l1: "int (length ?sel) \<le> total targetConfig" using assms by linarith
  have l2: "length ?sel \<le> length stores"
    using size_mset_mono [OF sub] by simp
  have s: "set ?sel \<subseteq> set stores"
    using set_mset_mono [OF sub] by simp
  have d: "distinct stores \<longrightarrow> distinct ?sel"
    using distinct_of_mset_subset [OF sub] by blast
  from l1 l2 s sub d show ?thesis by simp
qed

theorem C1_selection_bounds_witness:
  "int (length (fst (runStrategy exampleHeap ''portfolio-balance'' exampleStores \<lparr>total = 9\<rparr>)))
      \<le> min 9 (int (length exampleStores))
   \<and> set (fst (runStrategy exampleHeap ''portfolio-balance'' exampleStores \<lparr>total = 9\<rparr>))
      \<subseteq> set exampleStores
   \<and> distinct (fst (runStrategy exampleHeap ''portfolio-balance'' exampleStores \<lparr>total = 9\<rparr>))"
  using C1_selection_bounds [of "\<lparr>total = 9\<rparr>" exampleHeap "''portfolio-balance''" exampleStores]
  by (simp add: exampleStores_def)

end
